(* ===== verification/Prelude.thy ===== *)
theory Prelude
  imports Complex_Main
begin

text \<open>
  Shared vocabulary of the development: the collections of rewrite rules that the
  component theories extend, sequencing of fallible computations over a list (a
  JavaScript loop whose body may throw stops at the first exception), and the
  running maximum that the analyser's loops compute with \<open>Math.max\<close>.
\<close>

named_theorems js_simps "rules that evaluate the JavaScript value model on concrete values"
named_theorems shape_intros "introduction rules for the well-formedness of documents"

section \<open>Fallible loops\<close>

text \<open>
  \<open>seq_sum rs\<close> runs the steps \<open>rs\<close> from left to right and stops at the first
  error, which it returns; otherwise it returns every result in order.  A
  JavaScript \<^verbatim>\<open>for\<close> loop whose body may throw is \<open>seq_sum (map body xs)\<close>:
  since the bodies modelled here have no other effect, running every body and
  keeping the first error is the same as stopping at it.
\<close>

fun seq_sum :: "('e + 'a) list \<Rightarrow> 'e + 'a list" where
  "seq_sum [] = Inr []"
| "seq_sum (Inl e # rs) = Inl e"
| "seq_sum (Inr x # rs) = (case seq_sum rs of Inl e \<Rightarrow> Inl e | Inr ys \<Rightarrow> Inr (x # ys))"

text \<open>
  The same loop when its body also threads a state and may not return (a call
  of a \<open>partial_function (option)\<close>): \<open>None\<close> if a body does not return, the
  first error with the state at that point, or every result with the final
  state.
\<close>

fun loop_st :: "('a \<Rightarrow> 's \<Rightarrow> (('e + 'b) \<times> 's) option) \<Rightarrow> 'a list \<Rightarrow> 's \<Rightarrow> (('e + 'b list) \<times> 's) option" where
  "loop_st f [] st = Some (Inr [], st)"
| "loop_st f (x # xs) st =
     Option.bind (f x st) (\<lambda>(r, st'). case r of
        Inl e \<Rightarrow> Some (Inl e, st')
      | Inr y \<Rightarrow> Option.bind (loop_st f xs st') (\<lambda>(rs, st''). Some (map_sum id (Cons y) rs, st'')))"

text \<open>\<open>loop_st\<close> is monotone in its body, so a \<open>partial_function (option)\<close> may call itself inside it.\<close>

lemma loop_st_mono [partial_function_mono]:
  "(\<And>x st. mono_option (\<lambda>f. A f x st)) \<Longrightarrow> mono_option (\<lambda>f. loop_st (\<lambda>x st. A f x st) xs st)"
proof (induction xs arbitrary: st)
  case (Cons x xs)
  have step: "mono_option (\<lambda>f. case r of Inl e \<Rightarrow> Some (Inl e, st')
      | Inr y \<Rightarrow> Option.bind (loop_st (\<lambda>x st. A f x st) xs st') (\<lambda>(rs, st''). Some (map_sum id (Cons y) rs, st'')))"
    for r st'
    by (cases r) (simp_all add: option.const_mono bind_mono [OF Cons.IH [OF Cons.prems] option.const_mono])
  show ?case
    by (simp only: loop_st.simps) (rule bind_mono [OF Cons.prems], simp add: case_prod_beta step)
qed (simp add: option.const_mono)

lemma seq_sum_map_Inr [simp]: "seq_sum (map Inr ys) = Inr ys"
  by (induction ys) simp_all

lemma seq_sum_Inr_iff: "seq_sum rs = Inr ys \<longleftrightarrow> rs = map Inr ys"
proof
  show "seq_sum rs = Inr ys \<Longrightarrow> rs = map Inr ys"
    by (induction rs arbitrary: ys rule: seq_sum.induct) (auto split: sum.splits)
qed simp

lemma seq_sum_map_Inr_iff:
  "seq_sum (map f xs) = Inr ys \<longleftrightarrow> list_all2 (\<lambda>x y. f x = Inr y) xs ys"
proof -
  have "map f xs = map Inr ys \<longleftrightarrow> list_all2 (\<lambda>x y. f x = Inr y) xs ys"
    by (induction xs arbitrary: ys) (auto simp: list_all2_Cons1)
  then show ?thesis by (simp add: seq_sum_Inr_iff)
qed

lemma seq_sum_Inl_mem: "seq_sum rs = Inl e \<Longrightarrow> Inl e \<in> set rs"
  by (induction rs rule: seq_sum.induct) (auto split: sum.splits)

lemma seq_sum_ok:
  assumes "\<forall>r\<in>set rs. \<exists>y. r = Inr y"
  shows "\<exists>ys. seq_sum rs = Inr ys"
  using assms by (induction rs rule: seq_sum.induct) auto

lemma seq_sum_map_ok: "\<forall>x\<in>set xs. \<exists>y. f x = Inr y \<Longrightarrow> \<exists>ys. seq_sum (map f xs) = Inr ys"
  using seq_sum_ok [of "map f xs"] by auto

lemma list_all2_Inr_map:
  assumes "list_all2 (\<lambda>x y. f x = Inr y) xs ys" "\<And>x y. x \<in> set xs \<Longrightarrow> f x = Inr y \<Longrightarrow> h y = g x"
  shows "map h ys = map g xs"
  using assms by (induction rule: list_all2_induct) auto

lemma seq_sum_map_cong:
  "(\<And>x. x \<in> set xs \<Longrightarrow> f x = g x) \<Longrightarrow> seq_sum (map f xs) = seq_sum (map g xs)"
  by (metis map_eq_conv)

lemma list_all2_map_right:
  "list_all2 (\<lambda>x y. f x = Inr y) xs ys \<Longrightarrow> ys = map (\<lambda>x. projr (f x)) xs"
  by (induction rule: list_all2_induct) auto

lemma seq_sum_map_InlD: "seq_sum (map f xs) = Inl e \<Longrightarrow> \<exists>x\<in>set xs. f x = Inl e"
  by (auto dest!: seq_sum_Inl_mem) (metis)

lemma seq_sum_map_length: "seq_sum (map f xs) = Inr ys \<Longrightarrow> length ys = length xs"
  by (simp add: seq_sum_map_Inr_iff list_all2_lengthD)

lemma seq_sum_map_memD:
  "seq_sum (map f xs) = Inr ys \<Longrightarrow> y \<in> set ys \<Longrightarrow> \<exists>x\<in>set xs. f x = Inr y"
  by (auto simp: seq_sum_map_Inr_iff list_all2_conv_all_nth in_set_conv_nth) (metis nth_mem)

lemma map_sum_id_Inr [simp]: "map_sum id g x = Inr r \<longleftrightarrow> (\<exists>y. x = Inr y \<and> r = g y)"
  by (cases x) auto

lemma map_sum_id_Inl [simp]: "map_sum id g x = Inl e \<longleftrightarrow> x = Inl e"
  by (cases x) auto

text \<open>A loop body that computes a result and then a flag from it.\<close>

lemma case_pair_step_Inr:
  "(case x of Inl e \<Rightarrow> Inl e | Inr r \<Rightarrow> map_sum id (Pair r) (h r)) = Inr (r', b) \<Longrightarrow>
     x = Inr r' \<and> h r' = Inr b"
  by (cases x) auto

section \<open>Running maxima\<close>

text \<open>
  \<open>fold max xs d\<close> is the value of a variable initialised to \<open>d\<close> and updated
  with \<open>m = Math.max(m, x)\<close> for every \<open>x\<close> of \<open>xs\<close>.
\<close>

lemma fold_max_eq_Max: "fold max xs (d::nat) = Max (insert d (set xs))"
  by (metis Max.set_eq_fold list.simps(15))

lemma fold_max_ge_start: "(d::nat) \<le> fold max xs d"
  by (simp add: fold_max_eq_Max)

lemma fold_max_ge_mem: "x \<in> set xs \<Longrightarrow> (x::nat) \<le> fold max xs d"
  by (simp add: fold_max_eq_Max)

lemma fold_max_cases: "fold max xs (d::nat) = d \<or> fold max xs d \<in> set xs"
proof -
  have "Max (insert d (set xs)) \<in> insert d (set xs)" by (rule Max_in) auto
  then show ?thesis by (auto simp: fold_max_eq_Max)
qed

lemma fold_max_le:
  "(d::nat) \<le> b \<Longrightarrow> (\<forall>x\<in>set xs. x \<le> b) \<Longrightarrow> fold max xs d \<le> b"
  by (simp add: fold_max_eq_Max)

lemma fold_max_map_shift:
  "(\<forall>x\<in>set xs. g x = f x + k) \<Longrightarrow>
     fold max (map g xs) ((d::nat) + k) = fold max (map f xs) d + k"
proof (induction xs arbitrary: d)
  case (Cons a xs)
  then have IH: "fold max (map g xs) (max (f a) d + k) = fold max (map f xs) (max (f a) d) + k"
    by simp
  from Cons.prems have "max (g a) (d + k) = max (f a) d + k"
    by (simp add: max_def)
  with IH show ?case by simp
qed simp

section \<open>Termination measures over finite name sets\<close>

text \<open>
  The analyser's recursion is bounded by the pair (number of reference names of
  the document not yet visited, size of the current schema), compared
  lexicographically.  A structural call may keep the names and shrinks the
  size; a reference call marks a new name as visited.
\<close>

lemma fold_max_mono:
  assumes "mono (f :: nat \<Rightarrow> nat)"
  shows "fold max (map f xs) (f s) = f (fold max xs s)"
proof (induction xs arbitrary: s)
  case (Cons x xs)
  have "max (f x) (f s) = f (max x s)" using assms by (simp add: max_of_mono)
  with Cons.IH [of "max x s"] show ?case by simp
qed simp

lemma mono_shift: "mono (\<lambda>x::nat. if x = 0 then 0 else x + k)"
  by (rule monoI) auto

lemma seq_sum_map_map_sum:
  "\<forall>x\<in>set xs. g x = map_sum id f (h x) \<Longrightarrow>
     seq_sum (map g xs) = map_sum id (map f) (seq_sum (map h xs))"
proof (induction xs)
  case (Cons x xs)
  then show ?case by (cases "h x"; cases "seq_sum (map h xs)") simp_all
qed simp

lemma map_of_keys: "distinct (map fst kvs) \<Longrightarrow> map (map_of kvs) (map fst kvs) = map (Some \<circ> snd) kvs"
proof (induction kvs)
  case (Cons kv kvs)
  obtain k v where kv: "kv = (k, v)" by (cases kv)
  with Cons.prems have "k \<notin> set (map fst kvs)" by simp
  then have "map (map_of ((k, v) # kvs)) (map fst kvs) = map (map_of kvs) (map fst kvs)"
    by (intro map_cong) auto
  with Cons kv show ?case by simp
qed simp

lemma measure_step:
  assumes "finite R" "finite B" "A \<subseteq> B" "(m::nat) < n"
  shows "card (R \<union> A - V) < card (R \<union> B - V) \<or> card (R \<union> A - V) = card (R \<union> B - V) \<and> m < n"
proof -
  have "card (R \<union> A - V) \<le> card (R \<union> B - V)"
    using assms by (intro card_mono) auto
  with assms(4) show ?thesis by auto
qed

lemma measure_ref_step:
  assumes "finite R" "finite B" "A \<subseteq> R" "r \<in> B" "r \<notin> V"
  shows "card (R \<union> A - insert r V) < card (R \<union> B - V)"
proof -
  have "R \<union> A - insert r V \<subset> R \<union> B - V"
    using assms by auto
  then show ?thesis
    using assms by (intro psubset_card_mono) auto
qed

end
