(* ===== verification/Json.thy ===== *)
theory Json
  imports Prelude
begin

text \<open>
  The decoded document as the JavaScript program sees it (\<^verbatim>\<open>spec: any\<close> in
  \<^verbatim>\<open>src/src/lib/openapi-parser.ts\<close>), and the fragment of JavaScript's value
  semantics that the parser uses: truthiness, property reads \<^verbatim>\<open>o[k]\<close> on objects,
  arrays and strings, \<^verbatim>\<open>Object.keys\<close>, \<^verbatim>\<open>Object.values\<close>,
  \<^verbatim>\<open>Object.entries\<close>, \<^verbatim>\<open>for ... of\<close> iteration and the runtime
  \<^verbatim>\<open>TypeError\<close> that reading a property of \<^verbatim>\<open>null\<close> or iterating a
  non-iterable raises.
\<close>

section \<open>Values\<close>

text \<open>
  An object is the list of its own enumerable properties in JavaScript's
  enumeration order (\<open>map_of\<close> reads the first binding, and a document decoded by
  \<^verbatim>\<open>JSON.parse\<close> or \<^verbatim>\<open>js-yaml\<close> has each key once, see \<open>wf_json\<close>).
  Numbers are rationals: the analyser only tests them for truthiness.
\<close>

datatype json =
    JNull
  | JBool bool
  | JNum rat
  | JStr string
  | JArr "json list"
  | JObj "(string \<times> json) list"

text \<open>The exceptions the program raises or lets escape.\<close>

datatype error =
    TypeError        \<comment> \<open>runtime: property of null/undefined, non-iterable, missing method\<close>
  | ParseError       \<comment> \<open>\<^verbatim>\<open>parseOpenAPI\<close>: neither JSON nor YAML\<close>
  | InvalidSpec      \<comment> \<open>\<^verbatim>\<open>parseOpenAPI\<close>: no \<^verbatim>\<open>openapi\<close>/\<^verbatim>\<open>swagger\<close> marker\<close>

definition error_message :: "error \<Rightarrow> string" where
  "error_message e = (case e of
      TypeError \<Rightarrow> ''TypeError''
    | ParseError \<Rightarrow>
        ''Failed to parse file. Please provide a valid JSON or YAML OpenAPI specification.''
    | InvalidSpec \<Rightarrow> ''Invalid OpenAPI specification. Missing \"openapi\" or \"swagger\" field.'')"

fun wf_json :: "json \<Rightarrow> bool" where
  "wf_json (JObj kvs) = (distinct (map fst kvs) \<and> (\<forall>(k, v) \<in> set kvs. wf_json v))"
| "wf_json (JArr xs) = (\<forall>x \<in> set xs. wf_json x)"
| "wf_json _ = True"

section \<open>Truthiness\<close>

text \<open>
  \<open>truthy\<close> is JavaScript's \<^verbatim>\<open>Boolean(v)\<close>; \<open>undefined\<close> (a missing
  property, \<open>None\<close>) is falsy.  \<open>truthy_val\<close> is the idiom \<^verbatim>\<open>if (o.k)\<close>:
  \<open>Some v\<close> exactly when the read gives a truthy \<open>v\<close>.
\<close>

fun truthy :: "json \<Rightarrow> bool" where
  "truthy JNull = False"
| "truthy (JBool b) = b"
| "truthy (JNum n) = (n \<noteq> 0)"
| "truthy (JStr s) = (s \<noteq> [])"
| "truthy (JArr xs) = True"
| "truthy (JObj kvs) = True"

definition truthy_val :: "json option \<Rightarrow> json option" where
  "truthy_val v = (case v of Some x \<Rightarrow> if truthy x then Some x else None | None \<Rightarrow> None)"

text \<open>\<^verbatim>\<open>a || b\<close> on two reads, in a context that only tests truthiness.\<close>

definition js_or :: "json option \<Rightarrow> json option \<Rightarrow> json option" where
  "js_or a b = (case truthy_val a of Some x \<Rightarrow> Some x | None \<Rightarrow> truthy_val b)"

text \<open>\<^verbatim>\<open>typeof v === 'object'\<close>: objects, arrays and \<^verbatim>\<open>null\<close>.\<close>

fun typeof_object :: "json \<Rightarrow> bool" where
  "typeof_object JNull = True"
| "typeof_object (JArr xs) = True"
| "typeof_object (JObj kvs) = True"
| "typeof_object _ = False"

section \<open>Array indices\<close>

text \<open>
  A property key reads an array element or a character of a string only when it
  is a canonical array index: decimal digits without a leading zero.  \<open>show_nat\<close>
  is \<^verbatim>\<open>String(n)\<close>, the key \<^verbatim>\<open>Object.keys\<close> lists for index \<open>n\<close>.
\<close>

definition is_digit :: "char \<Rightarrow> bool" where
  "is_digit c \<longleftrightarrow> (48::nat) \<le> of_char c \<and> of_char c \<le> (57::nat)"

definition digit_val :: "char \<Rightarrow> nat" where
  "digit_val c = of_char c - 48"

definition parse_index :: "string \<Rightarrow> nat option" where
  "parse_index k =
     (if k \<noteq> [] \<and> list_all is_digit k \<and> (hd k = CHR ''0'' \<longrightarrow> k = ''0'')
      then Some (foldl (\<lambda>n c. 10 * n + digit_val c) 0 k) else None)"

fun show_nat :: "nat \<Rightarrow> string" where
  "show_nat n =
     (if n < 10 then [char_of (48 + n)] else show_nat (n div 10) @ [char_of (48 + n mod 10)])"

declare show_nat.simps [simp del]

section \<open>Property reads\<close>

text \<open>
  \<open>get v k\<close> is \<^verbatim>\<open>v[k]\<close> for a value that is not \<^verbatim>\<open>null\<close> or
  \<^verbatim>\<open>undefined\<close> (on \<^verbatim>\<open>null\<close> it is \<open>None\<close>, which is what
  \<^verbatim>\<open>v?.[k]\<close> gives; the non-optional read of \<^verbatim>\<open>null\<close> throws and is modelled
  by \<open>read_prop\<close>).  Own properties only: keys of \<^verbatim>\<open>Object.prototype\<close> such as
  \<^verbatim>\<open>constructor\<close> are not modelled.
\<close>

fun get :: "json \<Rightarrow> string \<Rightarrow> json option" where
  "get (JObj kvs) k = map_of kvs k"
| "get (JArr xs) k =
     (case parse_index k of
        Some i \<Rightarrow> if i < length xs then Some (xs ! i) else None
      | None \<Rightarrow> if k = ''length'' then Some (JNum (of_nat (length xs))) else None)"
| "get (JStr s) k =
     (case parse_index k of
        Some i \<Rightarrow> if i < length s then Some (JStr [s ! i]) else None
      | None \<Rightarrow> if k = ''length'' then Some (JNum (of_nat (length s))) else None)"
| "get _ k = None"

text \<open>\<^verbatim>\<open>v.k\<close> where \<open>v\<close> may be \<^verbatim>\<open>undefined\<close> or \<^verbatim>\<open>null\<close>: a TypeError there.\<close>

definition read_prop :: "json option \<Rightarrow> string \<Rightarrow> error + json option" where
  "read_prop v k = (case v of
      None \<Rightarrow> Inl TypeError
    | Some JNull \<Rightarrow> Inl TypeError
    | Some x \<Rightarrow> Inr (get x k))"

text \<open>\<^verbatim>\<open>Object.keys\<close>, \<^verbatim>\<open>Object.values\<close> and \<^verbatim>\<open>Object.entries\<close> of a value that is not null.\<close>

fun js_keys :: "json \<Rightarrow> string list" where
  "js_keys (JObj kvs) = map fst kvs"
| "js_keys (JArr xs) = map show_nat [0..<length xs]"
| "js_keys (JStr s) = map show_nat [0..<length s]"
| "js_keys _ = []"

fun js_values :: "json \<Rightarrow> json list" where
  "js_values (JObj kvs) = map snd kvs"
| "js_values (JArr xs) = xs"
| "js_values (JStr s) = map (\<lambda>c. JStr [c]) s"
| "js_values _ = []"

fun js_entries :: "json \<Rightarrow> (string \<times> json) list" where
  "js_entries (JObj kvs) = kvs"
| "js_entries (JArr xs) = zip (map show_nat [0..<length xs]) xs"
| "js_entries (JStr s) = zip (map show_nat [0..<length s]) (map (\<lambda>c. JStr [c]) s)"
| "js_entries _ = []"

text \<open>\<^verbatim>\<open>for (const x of v)\<close>: arrays and strings are iterable, anything else throws.\<close>

fun js_iter :: "json \<Rightarrow> error + json list" where
  "js_iter (JArr xs) = Inr xs"
| "js_iter (JStr s) = Inr (map (\<lambda>c. JStr [c]) s)"
| "js_iter _ = Inl TypeError"

section \<open>References and size\<close>

text \<open>
  \<open>refs_of v\<close> lists every string bound to a \<^verbatim>\<open>$ref\<close> key anywhere in \<open>v\<close>:
  the pointers the analyser can meet while walking \<open>v\<close>.
\<close>

fun refs_of :: "json \<Rightarrow> string list" where
  "refs_of (JObj kvs) =
     [r. (k, JStr r) \<leftarrow> kvs, k = ''$ref''] @ concat (map (\<lambda>(k, v). refs_of v) kvs)"
| "refs_of (JArr xs) = concat (map refs_of xs)"
| "refs_of _ = []"

definition refs_opt :: "json option \<Rightarrow> string set" where
  "refs_opt v = (case v of None \<Rightarrow> {} | Some x \<Rightarrow> set (refs_of x))"

definition size_opt :: "json option \<Rightarrow> nat" where
  "size_opt v = (case v of None \<Rightarrow> 0 | Some x \<Rightarrow> size x)"

section \<open>Lemmas\<close>

lemma truthy_val_Some [simp]: "truthy_val v = Some x \<longleftrightarrow> v = Some x \<and> truthy x"
  by (auto simp: truthy_val_def split: option.splits)

lemma truthy_val_None: "truthy_val v = None \<longleftrightarrow> (\<forall>x. v = Some x \<longrightarrow> \<not> truthy x)"
  by (auto simp: truthy_val_def split: option.splits)

lemma truthy_val_simps [simp, js_simps]:
  "truthy_val None = None"
  "truthy_val (Some x) = (if truthy x then Some x else None)"
  by (simp_all add: truthy_val_def)


lemma js_or_Some: "js_or a b = Some x \<Longrightarrow> truthy x \<and> (a = Some x \<or> b = Some x)"
  by (auto simp: js_or_def split: option.splits if_splits)

subsection \<open>Array index keys\<close>

lemma of_char_digit: "(n::nat) < 10 \<Longrightarrow> of_char (char_of (48 + n) :: char) = (48 + n :: nat)"
  by (simp add: take_bit_eq_mod)

lemma is_digit_digit: "(n::nat) < 10 \<Longrightarrow> is_digit (char_of (48 + n))"
  by (simp add: is_digit_def of_char_digit)

lemma show_nat_nonempty: "show_nat n \<noteq> []"
  by (subst show_nat.simps) simp

lemma show_nat_digits: "list_all is_digit (show_nat n)"
proof (induction n rule: show_nat.induct)
  case (1 n)
  show ?case
  proof (cases "n < 10")
    case True
    then show ?thesis by (subst show_nat.simps) (simp add: is_digit_digit)
  next
    case False
    with "1.IH" show ?thesis by (subst show_nat.simps) (simp add: is_digit_digit)
  qed
qed

lemma show_nat_value: "foldl (\<lambda>n c. 10 * n + digit_val c) 0 (show_nat n) = n"
proof (induction n rule: show_nat.induct)
  case (1 n)
  show ?case
  proof (cases "n < 10")
    case True
    then show ?thesis by (subst show_nat.simps) (simp add: digit_val_def of_char_digit)
  next
    case False
    with "1.IH" show ?thesis by (subst show_nat.simps) (simp add: digit_val_def of_char_digit)
  qed
qed

lemma show_nat_hd: "hd (show_nat n) = CHR ''0'' \<Longrightarrow> n = 0"
proof (induction n rule: show_nat.induct)
  case (1 n)
  show ?case
  proof (cases "n < 10")
    case True
    with "1.prems" have "of_char (char_of (48 + n) :: char) = (of_char (CHR ''0'') :: nat)"
      by (simp add: show_nat.simps [of n])
    with True show ?thesis by (simp add: of_char_digit)
  next
    case False
    with "1.prems" have "hd (show_nat (n div 10)) = CHR ''0''"
      by (simp add: show_nat.simps [of n] show_nat_nonempty)
    with "1.IH" False show ?thesis by simp
  qed
qed

lemma show_nat_zero: "show_nat 0 = ''0''"
  by (simp add: show_nat.simps char_of_eq_iff)

lemma parse_index_show_nat [simp, js_simps]: "parse_index (show_nat n) = Some n"
  using show_nat_nonempty show_nat_digits show_nat_value show_nat_hd show_nat_zero
  by (auto simp: parse_index_def)

lemma show_nat_inj: "show_nat m = show_nat n \<longleftrightarrow> m = n"
  by (metis option.inject parse_index_show_nat)

subsection \<open>Reads stay inside the value\<close>

lemma size_member_less: "(k, v) \<in> set kvs \<Longrightarrow> size v < size (JObj kvs)"
  by (induction kvs) auto

lemma size_elem_less: "x \<in> set xs \<Longrightarrow> size x < size (JArr xs)"
  by (induction xs) auto

lemma get_size_le: "get j k = Some v \<Longrightarrow> size v \<le> size j"
  by (cases j) (auto dest!: map_of_SomeD size_member_less nth_mem [THEN size_elem_less]
      split: option.splits if_splits)

lemma get_size_less:
  "get j k = Some v \<Longrightarrow> parse_index k = None \<Longrightarrow> k \<noteq> ''length'' \<Longrightarrow> size v < size j"
  by (cases j) (auto dest!: map_of_SomeD size_member_less)

lemma refs_member: "(k, v) \<in> set kvs \<Longrightarrow> set (refs_of v) \<subseteq> set (refs_of (JObj kvs))"
  by auto

lemma get_refs: "get j k = Some v \<Longrightarrow> set (refs_of v) \<subseteq> set (refs_of j)"
  by (cases j) (auto dest!: map_of_SomeD intro: nth_mem split: option.splits if_splits)

lemma get_keyword_obj:
  "get j k = Some v \<Longrightarrow> parse_index k = None \<Longrightarrow> k \<noteq> ''length'' \<Longrightarrow> \<exists>kvs. j = JObj kvs"
  by (cases j) auto

lemma get_ref_mem: "get j ''$ref'' = Some (JStr r) \<Longrightarrow> r \<in> set (refs_of j)"
  by (cases j) (auto dest!: map_of_SomeD simp: parse_index_def is_digit_def)

lemma js_iter_size: "js_iter a = Inr bs \<Longrightarrow> b \<in> set bs \<Longrightarrow> size b \<le> size a"
  by (cases a) (auto dest: size_elem_less)

lemma js_iter_refs: "js_iter a = Inr bs \<Longrightarrow> b \<in> set bs \<Longrightarrow> set (refs_of b) \<subseteq> set (refs_of a)"
  by (cases a) auto

lemma refs_opt_Some [simp]: "refs_opt (Some x) = set (refs_of x)"
  and refs_opt_None [simp]: "refs_opt None = {}"
  and size_opt_Some [simp]: "size_opt (Some x) = size x"
  and size_opt_None [simp]: "size_opt None = 0"
  by (simp_all add: refs_opt_def size_opt_def)

lemma finite_refs_opt [simp]: "finite (refs_opt v)"
  by (cases v) simp_all

lemma get_refs_opt: "refs_opt (get j k) \<subseteq> set (refs_of j)"
  by (cases "get j k") (auto dest: get_refs)

lemma get_size_opt_le: "size_opt (get j k) \<le> size j"
  by (cases "get j k") (auto dest: get_size_le)

lemma show_nat_3:
  assumes "100 \<le> n" "n < 1000"
  shows "show_nat n = [char_of (48 + n div 100), char_of (48 + n div 10 mod 10), char_of (48 + n mod 10)]"
proof -
  have "n div 100 < 10" using assms(2) by simp
  then have "show_nat (n div 100) = [char_of (48 + n div 100)]"
    by (subst show_nat.simps) simp
  moreover have "\<not> n div 10 < 10" using assms(1) by simp
  then have "show_nat (n div 10) = show_nat (n div 10 div 10) @ [char_of (48 + n div 10 mod 10)]"
    by (subst show_nat.simps) simp
  moreover have "show_nat n = show_nat (n div 10) @ [char_of (48 + n mod 10)]"
    using assms(1) by (subst show_nat.simps) simp
  ultimately show ?thesis by (simp add: div_mult2_eq [symmetric])
qed

lemma char_of_digit: "is_digit c \<Longrightarrow> char_of (48 + digit_val c) = c"
  by (simp add: is_digit_def digit_val_def)

end
