(* ===== verification/Resolver.thy ===== *)
theory Resolver
  imports Json
begin

text \<open>
  The reference resolver, \<^verbatim>\<open>resolveRef\<close> in \<^verbatim>\<open>src/src/lib/openapi-parser.ts\<close>:
  \<^verbatim>\<open>ref.replace('#/', '')\<close>, \<^verbatim>\<open>.split('/')\<close>, then one optional-chaining read
  \<^verbatim>\<open>result?.[part]\<close> per segment.  The string operations are JavaScript's:
  \<^verbatim>\<open>replace\<close> with a string pattern replaces the first occurrence wherever it is,
  and \<^verbatim>\<open>split\<close> keeps empty segments.
\<close>

section \<open>String operations\<close>

text \<open>\<^verbatim>\<open>s.replace(pat, rep)\<close> for a string pattern and a replacement without \<^verbatim>\<open>$\<close> patterns.\<close>

fun replace_first :: "string \<Rightarrow> string \<Rightarrow> string \<Rightarrow> string" where
  "replace_first pat rep [] = (if pat = [] then rep else [])"
| "replace_first pat rep (c # cs) =
     (if take (length pat) (c # cs) = pat then rep @ drop (length pat) (c # cs)
      else c # replace_first pat rep cs)"

text \<open>\<^verbatim>\<open>s.split(sep)\<close> for a one-character separator: never empty, keeps empty pieces.\<close>

fun split_on :: "char \<Rightarrow> string \<Rightarrow> string list" where
  "split_on d [] = [[]]"
| "split_on d (c # cs) =
     (if c = d then [] # split_on d cs
      else (case split_on d cs of w # ws \<Rightarrow> (c # w) # ws | [] \<Rightarrow> [[c]]))"

text \<open>Its inverse, \<^verbatim>\<open>ws.join(sep)\<close>, used to state what a pointer names.\<close>

fun join_on :: "char \<Rightarrow> string list \<Rightarrow> string" where
  "join_on d [] = []"
| "join_on d [w] = w"
| "join_on d (w # ws) = w @ d # join_on d ws"

section \<open>The walk\<close>

text \<open>
  The loop \<^verbatim>\<open>for (const part of parts) result = result?.[part]\<close>: an absent
  (\<open>None\<close>) or \<^verbatim>\<open>null\<close> intermediate value makes every later read absent.
\<close>

fun walk :: "json option \<Rightarrow> string list \<Rightarrow> json option" where
  "walk r [] = r"
| "walk r (p # ps) = walk (case r of None \<Rightarrow> None | Some j \<Rightarrow> get j p) ps"

definition resolve_ref :: "json \<Rightarrow> string \<Rightarrow> json option" where
  "resolve_ref spec ref = walk (Some spec) (split_on (CHR ''/'') (replace_first ''#/'' [] ref))"

section \<open>Lemmas\<close>

lemma split_on_nonempty [simp]: "split_on d s \<noteq> []"
  by (induction s) (auto split: list.splits)

lemma split_on_Cons_other:
  "c \<noteq> d \<Longrightarrow> split_on d (c # cs) = (c # hd (split_on d cs)) # tl (split_on d cs)"
  using split_on_nonempty [of d cs] by (auto split: list.splits)

lemma split_on_join_on:
  "ws \<noteq> [] \<Longrightarrow> \<forall>w\<in>set ws. d \<notin> set w \<Longrightarrow> split_on d (join_on d ws) = ws"
proof (induction ws rule: join_on.induct)
  case (2 d w)
  then show ?case by (induction w) (auto simp: split_on_Cons_other)
next
  case (3 d w v vs)
  then have IH: "split_on d (join_on d (v # vs)) = v # vs" by simp
  from "3.prems" have "d \<notin> set w" by simp
  then show ?case using IH by (induction w) (auto simp: split_on_Cons_other)
qed simp

lemma join_on_Cons: "ws \<noteq> [] \<Longrightarrow> join_on d (w # ws) = w @ d # join_on d ws"
  by (cases ws) simp_all

lemma join_on_Cons_Cons: "join_on d ((c # w) # ws) = c # join_on d (w # ws)"
  by (cases ws) simp_all

lemma join_on_split_on: "join_on d (split_on d s) = s"
proof (induction s)
  case (Cons c cs)
  show ?case
  proof (cases "c = d")
    case True
    with Cons.IH show ?thesis by (simp add: join_on_Cons)
  next
    case False
    then have eq: "split_on d (c # cs) = (c # hd (split_on d cs)) # tl (split_on d cs)"
      by (rule split_on_Cons_other)
    have "join_on d ((c # hd (split_on d cs)) # tl (split_on d cs)) = c # cs"
      using Cons.IH by (simp add: join_on_Cons_Cons)
    then show ?thesis by (simp only: eq)
  qed
qed simp

lemma replace_first_prefix: "replace_first pat rep (pat @ s) = rep @ s"
  by (cases "pat @ s") (auto simp: append_eq_Cons_conv)

lemma walk_None [simp]: "walk None ps = None"
  by (induction ps) simp_all

lemma walk_append: "walk r (xs @ ys) = walk (walk r xs) ys"
  by (induction xs arbitrary: r) simp_all

lemma walk_Some_Cons: "walk (Some j) (p # ps) = walk (get j p) ps"
  by simp

lemma walk_refs: "refs_opt (walk r ps) \<subseteq> refs_opt r"
proof (induction ps arbitrary: r)
  case (Cons p ps)
  have "refs_opt (case r of None \<Rightarrow> None | Some j \<Rightarrow> get j p) \<subseteq> refs_opt r"
    by (cases r) (auto dest: get_refs simp: refs_opt_def split: option.splits)
  with Cons.IH [of "case r of None \<Rightarrow> None | Some j \<Rightarrow> get j p"] show ?case by auto
qed simp

lemma resolve_ref_refs_sub: "refs_opt (resolve_ref spec r) \<subseteq> set (refs_of spec)"
  using walk_refs [of "Some spec"] by (simp add: resolve_ref_def)

section \<open>Properties of the resolver\<close>

lemma replace_first_after:
  "CHR ''/'' \<notin> set f \<Longrightarrow> replace_first ''#/'' rep (f @ CHR ''#'' # CHR ''/'' # s) = f @ rep @ s"
proof (induction f)
  case Nil
  then show ?case by (simp add: replace_first_prefix)
next
  case (Cons c f)
  have "take (length ''#/'') (c # f @ CHR ''#'' # CHR ''/'' # s) \<noteq> ''#/''"
    using Cons.prems by (cases f) auto
  then have "replace_first ''#/'' rep (c # f @ CHR ''#'' # CHR ''/'' # s) =
      c # replace_first ''#/'' rep (f @ CHR ''#'' # CHR ''/'' # s)"
    by (simp only: replace_first.simps if_not_P if_False)
  with Cons show ?case by simp
qed

lemma split_on_prefix:
  "d \<notin> set f \<Longrightarrow> split_on d (f @ s) = (f @ hd (split_on d s)) # tl (split_on d s)"
  by (induction f) (auto simp: split_on_Cons_other)

text \<open>
  C12: a same-document pointer \<^verbatim>\<open>#/seg1/.../segn\<close> whose segments contain no
  \<^verbatim>\<open>/\<close> is resolved by reading exactly those segments in order from the
  document root, an absent or \<^verbatim>\<open>null\<close> intermediate giving absent (spec
  section 4.2); segments are raw keys, with no \<^verbatim>\<open>~0\<close>/\<^verbatim>\<open>~1\<close> unescaping.
\<close>

theorem resolve_ref_pointer:
  assumes "ws \<noteq> []" "\<forall>w\<in>set ws. CHR ''/'' \<notin> set w"
  shows "resolve_ref spec (''#/'' @ join_on (CHR ''/'') ws) = walk (Some spec) ws"
  using assms by (simp add: resolve_ref_def replace_first_prefix split_on_join_on)

theorem resolve_ref_pointer_witness:
  "resolve_ref (JObj [(''components'', JObj [(''Pet'', JNum 7)])]) ''#/components/Pet'' = Some (JNum 7)"
proof -
  have "resolve_ref (JObj [(''components'', JObj [(''Pet'', JNum 7)])])
      (''#/'' @ join_on (CHR ''/'') [''components'', ''Pet''])
    = walk (Some (JObj [(''components'', JObj [(''Pet'', JNum 7)])])) [''components'', ''Pet'']"
    by (rule resolve_ref_pointer) simp_all
  then show ?thesis by simp
qed

text \<open>
  C13: a reference into another document, \<^verbatim>\<open>f#/s1/.../sn\<close> with a file
  name \<open>f\<close> without \<^verbatim>\<open>/\<close>, is not rejected: \<^verbatim>\<open>replace('#/', '')\<close>
  removes the marker after the file name, which is glued to the first segment,
  and the current document is walked along \<open>f s1\<close>, \<open>s2\<close>, ..., \<open>sn\<close>
  (so \<^verbatim>\<open>other.yaml#/Pet\<close> reads the key \<^verbatim>\<open>other.yamlPet\<close>).
\<close>

theorem resolve_ref_external:
  assumes "CHR ''/'' \<notin> set f" "ws \<noteq> []" "\<forall>w\<in>set ws. CHR ''/'' \<notin> set w"
  shows "resolve_ref spec (f @ ''#/'' @ join_on (CHR ''/'') ws) = walk (Some spec) ((f @ hd ws) # tl ws)"
  using assms by (simp add: resolve_ref_def replace_first_after split_on_prefix split_on_join_on)

theorem resolve_ref_external_witness:
  "CHR ''/'' \<notin> set ''other.yaml'' \<and> CHR ''/'' \<notin> set ''Pet'' \<and>
   resolve_ref (JObj [(''other.yamlPet'', JNum 1)]) ''other.yaml#/Pet'' = Some (JNum 1)"
proof -
  have h: "CHR ''/'' \<notin> set ''other.yaml''" "[''Pet''] \<noteq> []" "\<forall>w\<in>set [''Pet'']. CHR ''/'' \<notin> set w"
    by simp_all
  from resolve_ref_external [OF h, of "JObj [(''other.yamlPet'', JNum 1)]"] h show ?thesis by simp
qed

end
