(* ===== verification/Schema.thy ===== *)
theory Schema
  imports Resolver
begin

text \<open>
  The data of the schema analyser (\<^verbatim>\<open>analyzeSchema\<close>, lines 33--116 of
  \<^verbatim>\<open>src/src/lib/openapi-parser.ts\<close>) apart from its recursion: the result record
  \<^verbatim>\<open>SchemaAnalysis\<close>, the way each loop of the analyser combines the results of
  its recursive calls, the structural-type guard of the object loop and the
  \<^verbatim>\<open>schema.properties || {}\<close> default.  The recursion itself is in
  \<open>Analyzer\<close>.
\<close>

section \<open>Results\<close>

text \<open>\<^verbatim>\<open>interface SchemaAnalysis { fieldCount: number; maxDepth: number }\<close>\<close>

record analysis =
  fieldCount :: nat
  maxDepth :: nat

definition no_analysis :: analysis where
  "no_analysis = \<lparr>fieldCount = 0, maxDepth = 0\<rparr>"

section \<open>Combining the results of the loops\<close>

text \<open>
  The \<^verbatim>\<open>allOf\<close> loop: \<^verbatim>\<open>totalFields += result.fieldCount\<close> and
  \<^verbatim>\<open>maxDepth = Math.max(maxDepth, result.maxDepth)\<close> from \<^verbatim>\<open>maxDepth = depth\<close>.
\<close>

definition all_of_result :: "nat \<Rightarrow> analysis list \<Rightarrow> analysis" where
  "all_of_result depth rs =
     \<lparr>fieldCount = sum_list (map fieldCount rs), maxDepth = fold max (map maxDepth rs) depth\<rparr>"

text \<open>The \<^verbatim>\<open>oneOf\<close>/\<^verbatim>\<open>anyOf\<close> loop: \<^verbatim>\<open>maxFields = Math.max(maxFields, result.fieldCount)\<close>.\<close>

definition one_of_result :: "nat \<Rightarrow> analysis list \<Rightarrow> analysis" where
  "one_of_result depth rs =
     \<lparr>fieldCount = fold max (map fieldCount rs) 0, maxDepth = fold max (map maxDepth rs) depth\<rparr>"

text \<open>
  The guard of line 98: \<^verbatim>\<open>propSchema.type === 'object' || propSchema.type === 'array'
  || propSchema.$ref || propSchema.properties\<close>.
\<close>

definition structural :: "json \<Rightarrow> bool" where
  "structural p \<longleftrightarrow>
     get p ''type'' = Some (JStr ''object'') \<or> get p ''type'' = Some (JStr ''array'') \<or>
     truthy_val (get p ''$ref'') \<noteq> None \<or> truthy_val (get p ''properties'') \<noteq> None"

text \<open>
  The whole condition of line 98, evaluated left to right: when the nested count
  is positive, \<^verbatim>\<open>propSchema.type\<close> is read, which throws for an
  \<^verbatim>\<open>undefined\<close> or \<^verbatim>\<open>null\<close> property schema.  The result says whether the
  nested count is added.
\<close>

definition prop_guard :: "json option \<Rightarrow> analysis \<Rightarrow> error + bool" where
  "prop_guard ps r =
     (if 0 < fieldCount r then
        (case ps of
          None \<Rightarrow> Inl TypeError
        | Some p \<Rightarrow> if p = JNull then Inl TypeError else Inr (structural p))
      else Inr False)"

text \<open>
  The object case after its loop: \<open>n\<close> is \<^verbatim>\<open>propertyNames.length\<close>, \<open>rs\<close>
  the result of each property with the value of its guard.
\<close>

definition object_result :: "nat \<Rightarrow> nat \<Rightarrow> (analysis \<times> bool) list \<Rightarrow> analysis" where
  "object_result depth n rs =
     \<lparr>fieldCount = n + sum_list (map (\<lambda>(r, add). if add then fieldCount r else 0) rs),
      maxDepth = fold max (map (maxDepth \<circ> fst) rs) (if 0 < n then depth else 0)\<rparr>"

text \<open>The \<^verbatim>\<open>additionalProperties\<close> step (lines 105--109).\<close>

definition add_extra :: "analysis \<Rightarrow> analysis \<Rightarrow> analysis" where
  "add_extra r a =
     \<lparr>fieldCount = fieldCount r + fieldCount a, maxDepth = max (maxDepth r) (maxDepth a)\<rparr>"

text \<open>\<^verbatim>\<open>const properties = schema.properties || {}\<close>\<close>

definition props_of :: "json \<Rightarrow> json" where
  "props_of s = (case truthy_val (get s ''properties'') of Some p \<Rightarrow> p | None \<Rightarrow> JObj [])"

text \<open>
  The depth translation used to compare runs started at different depths: a
  depth of 0 (nothing reached) stays 0, every other depth moves by \<open>k\<close>.
\<close>

definition shift_depth :: "nat \<Rightarrow> analysis \<Rightarrow> analysis" where
  "shift_depth k r = r\<lparr>maxDepth := if maxDepth r = 0 then 0 else maxDepth r + k\<rparr>"

text \<open>
  Documents on which the analyser cannot throw: every truthy \<^verbatim>\<open>$ref\<close> is a
  string and every truthy \<^verbatim>\<open>allOf\<close>, \<^verbatim>\<open>oneOf\<close>, \<^verbatim>\<open>anyOf\<close> is
  iterable (an array or a string), in every object of the tree.
\<close>

fun well_typed :: "json \<Rightarrow> bool" where
  "well_typed (JObj kvs) =
     ((case map_of kvs ''$ref'' of
         Some v \<Rightarrow> truthy v \<longrightarrow> (case v of JStr _ \<Rightarrow> True | _ \<Rightarrow> False)
       | None \<Rightarrow> True) \<and>
      list_all (\<lambda>k. case map_of kvs k of Some v \<Rightarrow> truthy v \<longrightarrow> \<not> isl (js_iter v) | None \<Rightarrow> True)
        [''allOf'', ''oneOf'', ''anyOf''] \<and>
      (\<forall>(k, v) \<in> set kvs. well_typed v))"
| "well_typed (JArr xs) = (\<forall>x \<in> set xs. well_typed x)"
| "well_typed _ = True"

section \<open>Lemmas\<close>

lemma no_analysis_simps [simp]:
  "fieldCount no_analysis = 0" "maxDepth no_analysis = 0"
  by (simp_all add: no_analysis_def)

lemma result_simps [simp]:
  "fieldCount (all_of_result d rs) = sum_list (map fieldCount rs)"
  "maxDepth (all_of_result d rs) = fold max (map maxDepth rs) d"
  "fieldCount (one_of_result d rs) = fold max (map fieldCount rs) 0"
  "maxDepth (one_of_result d rs) = fold max (map maxDepth rs) d"
  "fieldCount (add_extra r a) = fieldCount r + fieldCount a"
  "maxDepth (add_extra r a) = max (maxDepth r) (maxDepth a)"
  by (simp_all add: all_of_result_def one_of_result_def add_extra_def)

lemma object_result_simps [simp]:
  "fieldCount (object_result d n rs) =
     n + sum_list (map (\<lambda>(r, add). if add then fieldCount r else 0) rs)"
  "maxDepth (object_result d n rs) = fold max (map (maxDepth \<circ> fst) rs) (if 0 < n then d else 0)"
  by (simp_all add: object_result_def)

lemma object_result_Nil [simp]: "object_result d 0 [] = no_analysis"
  by (simp add: object_result_def no_analysis_def)

lemma object_result_depth_ge: "rs \<noteq> [] \<Longrightarrow> d \<le> maxDepth (object_result d (length rs) rs)"
  by (simp add: fold_max_ge_start)

lemma prop_guard_zero [simp]: "fieldCount r = 0 \<Longrightarrow> prop_guard ps r = Inr False"
  by (simp add: prop_guard_def)

lemma prop_guard_obj: "prop_guard (Some (JObj kvs)) r = Inr (0 < fieldCount r \<and> structural (JObj kvs))"
  by (simp add: prop_guard_def)

lemma props_of_sub:
  assumes "k \<in> set (js_keys (props_of s))"
  shows "size (props_of s) < size s \<and> set (refs_of (props_of s)) \<subseteq> set (refs_of s)"
proof (cases "truthy_val (get s ''properties'')")
  case None
  with assms show ?thesis by (simp add: props_of_def)
next
  case (Some p)
  then have "get s ''properties'' = Some p" by simp
  then have "size p < size s" and "set (refs_of p) \<subseteq> set (refs_of s)"
    using get_size_less [of s "''properties''" p] get_refs [of s "''properties''" p]
    by (simp_all add: parse_index_def is_digit_def)
  with Some show ?thesis by (simp add: props_of_def)
qed

lemma get_field_less:
  "get s k = Some v \<Longrightarrow> parse_index k = None \<Longrightarrow> k \<noteq> ''length'' \<Longrightarrow>
     size v < size s \<and> set (refs_of v) \<subseteq> set (refs_of s)"
  using get_size_less [of s k v] get_refs [of s k v] by simp

lemma iter_field_less:
  "get s k = Some a \<Longrightarrow> js_iter a = Inr bs \<Longrightarrow> b \<in> set bs \<Longrightarrow>
     parse_index k = None \<Longrightarrow> k \<noteq> ''length'' \<Longrightarrow>
     size b < size s \<and> set (refs_of b) \<subseteq> set (refs_of s)"
  using get_field_less [of s k a] js_iter_size [of a bs b] js_iter_refs [of a bs b] by auto

lemmas keyword_not_index =
  parse_index_def is_digit_def

lemma keyword_truthy:
  "get s k = Some v \<Longrightarrow> parse_index k = None \<Longrightarrow> k \<noteq> ''length'' \<Longrightarrow>
     truthy_val (Some s) = Some s"
  by (auto dest: get_keyword_obj)

lemma shift_depth_simps [simp]:
  "fieldCount (shift_depth k r) = fieldCount r"
  "maxDepth (shift_depth k r) = (if maxDepth r = 0 then 0 else maxDepth r + k)"
  by (simp_all add: shift_depth_def)

lemma fold_max_shift:
  "fold max (map (maxDepth \<circ> shift_depth k) rs) (if d = 0 then 0 else d + k) =
   (if fold max (map maxDepth rs) d = 0 then 0 else fold max (map maxDepth rs) d + k)"
  using fold_max_mono [OF mono_shift, of k "map maxDepth rs" d] by (simp add: comp_def)

lemma all_of_result_shift:
  "0 < d \<Longrightarrow> all_of_result (d + k) (map (shift_depth k) rs) = shift_depth k (all_of_result d rs)"
  using fold_max_shift [of k rs d] by (simp add: all_of_result_def shift_depth_def comp_def)

lemma one_of_result_shift:
  "0 < d \<Longrightarrow> one_of_result (d + k) (map (shift_depth k) rs) = shift_depth k (one_of_result d rs)"
  using fold_max_shift [of k rs d] by (simp add: one_of_result_def shift_depth_def comp_def)

lemma object_result_shift:
  assumes "0 < d"
  shows "object_result (d + k) n (map (apfst (shift_depth k)) rs) =
         shift_depth k (object_result d n rs)"
proof (rule analysis.equality)
  have "fold max (map (maxDepth \<circ> shift_depth k) (map fst rs))
          (if (if 0 < n then d else 0) = 0 then 0 else (if 0 < n then d else 0) + k) =
        (if fold max (map maxDepth (map fst rs)) (if 0 < n then d else 0) = 0 then 0
         else fold max (map maxDepth (map fst rs)) (if 0 < n then d else 0) + k)"
    by (rule fold_max_shift)
  with assms show "maxDepth (object_result (d + k) n (map (apfst (shift_depth k)) rs)) =
      maxDepth (shift_depth k (object_result d n rs))"
    by (cases "0 < n") (simp_all add: comp_def)
next
  show "fieldCount (object_result (d + k) n (map (apfst (shift_depth k)) rs)) =
      fieldCount (shift_depth k (object_result d n rs))"
    by (induction rs) (auto simp: object_result_def)
qed simp

lemma add_extra_shift:
  "add_extra (shift_depth k r) (shift_depth k a) = shift_depth k (add_extra r a)"
  by (simp add: add_extra_def shift_depth_def max_def)

lemma prop_guard_shift [simp]: "prop_guard p (shift_depth k r) = prop_guard p r"
  by (simp add: prop_guard_def)

lemma prop_step_shift:
  "(case map_sum id (shift_depth k) x of Inl e \<Rightarrow> Inl e | Inr r \<Rightarrow> map_sum id (Pair r) (prop_guard p r)) =
   map_sum id (apfst (shift_depth k))
     (case x of Inl e \<Rightarrow> Inl e | Inr r \<Rightarrow> map_sum id (Pair r) (prop_guard p r))"
proof (cases x)
  case (Inr r)
  then show ?thesis by (cases "prop_guard p r") simp_all
qed simp

lemma well_typed_get: "well_typed j \<Longrightarrow> get j k = Some v \<Longrightarrow> well_typed v"
  by (cases j) (auto dest!: map_of_SomeD split: option.splits if_splits)

lemma well_typed_walk: "pred_option well_typed r \<Longrightarrow> pred_option well_typed (walk r ps)"
proof (induction ps arbitrary: r)
  case (Cons p ps)
  have "pred_option well_typed (case r of None \<Rightarrow> None | Some j \<Rightarrow> get j p)"
    using Cons.prems by (cases r) (auto simp: option.pred_set dest: well_typed_get)
  with Cons.IH show ?case by simp
qed simp

lemma well_typed_resolve: "well_typed spec \<Longrightarrow> pred_option well_typed (resolve_ref spec q)"
  unfolding resolve_ref_def by (rule well_typed_walk) simp

lemma well_typed_iter: "well_typed a \<Longrightarrow> js_iter a = Inr bs \<Longrightarrow> b \<in> set bs \<Longrightarrow> well_typed b"
  by (cases a) auto

lemma well_typed_props: "well_typed s \<Longrightarrow> well_typed (props_of s)"
  by (auto simp: props_of_def split: option.splits dest: well_typed_get)

lemma well_typed_ref:
  "well_typed s \<Longrightarrow> truthy_val (get s ''$ref'') = Some x \<Longrightarrow> \<exists>q. x = JStr q"
  by (cases s) (auto simp: keyword_not_index split: json.splits)

lemma well_typed_iterable:
  assumes "well_typed s" "truthy_val (get s k) = Some a" "k \<in> {''allOf'', ''oneOf'', ''anyOf''}"
  shows "\<exists>bs. js_iter a = Inr bs"
proof -
  have nl: "\<not> isl x \<longleftrightarrow> (\<exists>y. x = Inr y)" for x :: "error + json list"
    by (cases x) auto
  from assms show ?thesis by (cases s) (auto simp: keyword_not_index nl)
qed

end
