(* ===== verification/Analyzer.thy ===== *)
theory Analyzer
  imports Schema
begin

text \<open>
  The schema analyser, \<^verbatim>\<open>analyzeSchema(spec, schema, visited, depth)\<close> of
  \<^verbatim>\<open>src/src/lib/openapi-parser.ts\<close> (lines 33--116), as one recursive function.
  Its rules are tried in the order of the source: absent or falsy schema,
  \<^verbatim>\<open>$ref\<close>, \<^verbatim>\<open>allOf\<close>, \<^verbatim>\<open>oneOf\<close>/\<^verbatim>\<open>anyOf\<close>, array, object, anything
  else.  The visited set is a list of pointers passed by value: the source's
  \<^verbatim>\<open>new Set(visited)\<close> copies are the same value here, and the two calls that
  share the caller's set (the \<^verbatim>\<open>$ref\<close> and array cases) return the callee's
  result at once, so the callee's additions are never observed.
  A runtime \<^verbatim>\<open>TypeError\<close> (a non-string \<^verbatim>\<open>$ref\<close>, a non-iterable
  composition) is the result \<open>Inl TypeError\<close>.
\<close>

function analyze :: "json \<Rightarrow> json option \<Rightarrow> string list \<Rightarrow> nat \<Rightarrow> error + analysis" where
  "analyze spec schema visited depth =
    (case truthy_val schema of
      None \<Rightarrow> Inr no_analysis
    | Some s \<Rightarrow>
      (case truthy_val (get s ''$ref'') of
        Some (JStr r) \<Rightarrow>
          if r \<in> set visited then Inr \<lparr>fieldCount = 0, maxDepth = depth\<rparr>
          else analyze spec (resolve_ref spec r) (r # visited) depth
      | Some _ \<Rightarrow> Inl TypeError
      | None \<Rightarrow>
      (case truthy_val (get s ''allOf'') of
        Some a \<Rightarrow>
          (case js_iter a of
            Inl e \<Rightarrow> Inl e
          | Inr bs \<Rightarrow> map_sum id (all_of_result depth)
                       (seq_sum (map (\<lambda>b. analyze spec (Some b) visited depth) bs)))
      | None \<Rightarrow>
      (case js_or (get s ''oneOf'') (get s ''anyOf'') of
        Some a \<Rightarrow>
          (case js_iter a of
            Inl e \<Rightarrow> Inl e
          | Inr bs \<Rightarrow> map_sum id (one_of_result depth)
                       (seq_sum (map (\<lambda>b. analyze spec (Some b) visited depth) bs)))
      | None \<Rightarrow>
      if get s ''type'' = Some (JStr ''array'') \<and> truthy_val (get s ''items'') \<noteq> None
      then analyze spec (get s ''items'') visited (Suc depth)
      else if get s ''type'' = Some (JStr ''object'') \<or> truthy_val (get s ''properties'') \<noteq> None
      then
        (case seq_sum (map (\<lambda>k.
                  case analyze spec (get (props_of s) k) visited (Suc depth) of
                    Inl e \<Rightarrow> Inl e
                  | Inr r \<Rightarrow> map_sum id (Pair r) (prop_guard (get (props_of s) k) r))
                (js_keys (props_of s))) of
          Inl e \<Rightarrow> Inl e
        | Inr rs \<Rightarrow>
            (case truthy_val (get s ''additionalProperties'') of
              Some ap \<Rightarrow>
                if typeof_object ap then
                  (case analyze spec (Some ap) visited (Suc depth) of
                    Inl e \<Rightarrow> Inl e
                  | Inr a \<Rightarrow>
                      Inr (add_extra (object_result depth (length (js_keys (props_of s))) rs) a))
                else Inr (object_result depth (length (js_keys (props_of s))) rs)
            | None \<Rightarrow> Inr (object_result depth (length (js_keys (props_of s))) rs)))
      else Inr no_analysis))))"
  by pat_completeness auto
termination
  apply (relation "measures
    [\<lambda>(spec, schema, visited, depth). card (set (refs_of spec) \<union> refs_opt schema - set visited),
     \<lambda>(spec, schema, visited, depth). size_opt schema]")
         apply simp_all
  subgoal for spec visited s
    using get_size_less [of s "''items''"]
    by (intro measure_step) (auto simp: keyword_not_index get_refs_opt)
  subgoal for spec visited s k
    using props_of_sub [of k s] get_size_opt_le [of "props_of s" k]
      get_refs_opt [of "props_of s" k]
    by (intro measure_step) auto
  subgoal for spec visited depth s rs ap
    using get_field_less [of s "''additionalProperties''" ap]
    by (intro measure_step) (auto simp: keyword_not_index)
  subgoal for spec visited s a bs b
    using iter_field_less [of s "''oneOf''" a bs b] iter_field_less [of s "''anyOf''" a bs b]
    by (intro measure_step) (auto simp: keyword_not_index dest!: js_or_Some)
  subgoal for spec visited s a bs b
    using iter_field_less [of s "''allOf''" a bs b]
    by (intro measure_step) (auto simp: keyword_not_index)
  subgoal for spec visited s x r
    by (rule disjI1, rule measure_ref_step)
      (auto simp: resolve_ref_refs_sub get_ref_mem)
  done

section \<open>Example documents\<close>

text \<open>Small documents on which the properties below are instantiated.\<close>

definition jref :: "string \<Rightarrow> json" where
  "jref q = JObj [(''$ref'', JStr q)]"

definition jtype :: "string \<Rightarrow> json" where
  "jtype t = JObj [(''type'', JStr t)]"

definition jobject :: "(string \<times> json) list \<Rightarrow> json" where
  "jobject ps = JObj [(''type'', JStr ''object''), (''properties'', JObj ps)]"

text \<open>
  \<open>Node\<close> is a recursive schema (a tree node whose \<open>child\<close> is a \<open>Node\<close>), \<open>Loop\<close>
  a schema whose reference names itself.
\<close>

definition node_doc :: json where
  "node_doc = JObj [(''openapi'', JStr ''3.0.0''),
     (''components'', JObj [(''schemas'', JObj [
        (''Node'', jobject [(''name'', jtype ''string''), (''child'', jref ''#/components/schemas/Node'')]),
        (''Loop'', jref ''#/components/schemas/Loop'')])])]"

text \<open>
  An object whose only property is composition-only: an \<^verbatim>\<open>allOf\<close> of an
  object with one primitive field, and no type tag of its own.
\<close>

definition composed_doc :: json where
  "composed_doc = jobject [(''a'', JObj [(''allOf'', JArr [jobject [(''x'', jtype ''string'')]])])]"

declare analyze.simps [simp del]

section \<open>One step of the analyser, rule by rule\<close>

lemma analyze_absent_eq: "truthy_val schema = None \<Longrightarrow> analyze spec schema vis d = Inr no_analysis"
  by (subst analyze.simps) simp

lemma analyze_ref_visited:
  "truthy_val schema = Some s \<Longrightarrow> truthy_val (get s ''$ref'') = Some (JStr q) \<Longrightarrow> q \<in> set vis \<Longrightarrow>
     analyze spec schema vis d = Inr \<lparr>fieldCount = 0, maxDepth = d\<rparr>"
  by (subst analyze.simps) simp

lemma analyze_ref_unvisited:
  "truthy_val schema = Some s \<Longrightarrow> truthy_val (get s ''$ref'') = Some (JStr q) \<Longrightarrow> q \<notin> set vis \<Longrightarrow>
     analyze spec schema vis d = analyze spec (resolve_ref spec q) (q # vis) d"
  by (subst analyze.simps) simp

lemma analyze_ref_bad:
  "truthy_val schema = Some s \<Longrightarrow> truthy_val (get s ''$ref'') = Some x \<Longrightarrow> \<forall>q. x \<noteq> JStr q \<Longrightarrow>
     analyze spec schema vis d = Inl TypeError"
  by (subst analyze.simps) (cases x; simp)

lemma analyze_allOf_eq:
  "truthy_val schema = Some s \<Longrightarrow> truthy_val (get s ''$ref'') = None \<Longrightarrow>
   truthy_val (get s ''allOf'') = Some a \<Longrightarrow>
     analyze spec schema vis d =
       (case js_iter a of
          Inl e \<Rightarrow> Inl e
        | Inr bs \<Rightarrow> map_sum id (all_of_result d) (seq_sum (map (\<lambda>b. analyze spec (Some b) vis d) bs)))"
  by (subst analyze.simps) simp

lemma analyze_oneOf_eq:
  "truthy_val schema = Some s \<Longrightarrow> truthy_val (get s ''$ref'') = None \<Longrightarrow>
   truthy_val (get s ''allOf'') = None \<Longrightarrow> js_or (get s ''oneOf'') (get s ''anyOf'') = Some a \<Longrightarrow>
     analyze spec schema vis d =
       (case js_iter a of
          Inl e \<Rightarrow> Inl e
        | Inr bs \<Rightarrow> map_sum id (one_of_result d) (seq_sum (map (\<lambda>b. analyze spec (Some b) vis d) bs)))"
  by (subst analyze.simps) simp

lemma analyze_array_eq:
  "truthy_val schema = Some s \<Longrightarrow> truthy_val (get s ''$ref'') = None \<Longrightarrow>
   truthy_val (get s ''allOf'') = None \<Longrightarrow> js_or (get s ''oneOf'') (get s ''anyOf'') = None \<Longrightarrow>
   get s ''type'' = Some (JStr ''array'') \<Longrightarrow> truthy_val (get s ''items'') \<noteq> None \<Longrightarrow>
     analyze spec schema vis d = analyze spec (get s ''items'') vis (Suc d)"
  by (subst analyze.simps) (simp del: truthy_val_Some not_None_eq)

lemma analyze_object_eq:
  "truthy_val schema = Some s \<Longrightarrow> truthy_val (get s ''$ref'') = None \<Longrightarrow>
   truthy_val (get s ''allOf'') = None \<Longrightarrow> js_or (get s ''oneOf'') (get s ''anyOf'') = None \<Longrightarrow>
   \<not> (get s ''type'' = Some (JStr ''array'') \<and> truthy_val (get s ''items'') \<noteq> None) \<Longrightarrow>
   get s ''type'' = Some (JStr ''object'') \<or> truthy_val (get s ''properties'') \<noteq> None \<Longrightarrow>
     analyze spec schema vis d =
       (case seq_sum (map (\<lambda>k.
                  case analyze spec (get (props_of s) k) vis (Suc d) of
                    Inl e \<Rightarrow> Inl e
                  | Inr r \<Rightarrow> map_sum id (Pair r) (prop_guard (get (props_of s) k) r))
                (js_keys (props_of s))) of
          Inl e \<Rightarrow> Inl e
        | Inr rs \<Rightarrow>
            (case truthy_val (get s ''additionalProperties'') of
              Some ap \<Rightarrow>
                if typeof_object ap then
                  (case analyze spec (Some ap) vis (Suc d) of
                    Inl e \<Rightarrow> Inl e
                  | Inr a \<Rightarrow> Inr (add_extra (object_result d (length (js_keys (props_of s))) rs) a))
                else Inr (object_result d (length (js_keys (props_of s))) rs)
            | None \<Rightarrow> Inr (object_result d (length (js_keys (props_of s))) rs)))"
  by (subst analyze.simps) (simp del: truthy_val_Some not_None_eq cong: conj_cong)

lemma analyze_prim_eq:
  "truthy_val schema = Some s \<Longrightarrow> truthy_val (get s ''$ref'') = None \<Longrightarrow>
   truthy_val (get s ''allOf'') = None \<Longrightarrow> js_or (get s ''oneOf'') (get s ''anyOf'') = None \<Longrightarrow>
   \<not> (get s ''type'' = Some (JStr ''array'') \<and> truthy_val (get s ''items'') \<noteq> None) \<Longrightarrow>
   \<not> (get s ''type'' = Some (JStr ''object'') \<or> truthy_val (get s ''properties'') \<noteq> None) \<Longrightarrow>
     analyze spec schema vis d = Inr no_analysis"
  by (subst analyze.simps) (simp del: truthy_val_Some not_None_eq cong: conj_cong)

section \<open>Inversion of a successful run\<close>

text \<open>
  Which rule produced a result, with the sub-results it was built from.  The
  premises of each case are those of the matching recursive call in
  \<open>analyze.induct\<close>, so proofs by computation induction take their induction
  hypotheses from here.
\<close>

lemma analyze_Inr_plain_cases:
  assumes res: "analyze spec schema vis d = Inr r"
    and s: "truthy_val schema = Some s" "truthy_val (get s ''$ref'') = None"
      "truthy_val (get s ''allOf'') = None" "js_or (get s ''oneOf'') (get s ''anyOf'') = None"
  obtains
    (array) "get s ''type'' = Some (JStr ''array'') \<and> truthy_val (get s ''items'') \<noteq> None"
      "analyze spec (get s ''items'') vis (Suc d) = Inr r"
  | (object) rs
    where "\<not> (get s ''type'' = Some (JStr ''array'') \<and> truthy_val (get s ''items'') \<noteq> None)"
      "get s ''type'' = Some (JStr ''object'') \<or> truthy_val (get s ''properties'') \<noteq> None"
      "seq_sum (map (\<lambda>k. case analyze spec (get (props_of s) k) vis (Suc d) of
                  Inl e \<Rightarrow> Inl e
                | Inr r \<Rightarrow> map_sum id (Pair r) (prop_guard (get (props_of s) k) r))
              (js_keys (props_of s))) = Inr rs"
      "length rs = length (js_keys (props_of s))"
      "r = object_result d (length rs) rs \<or>
       (\<exists>ap a. truthy_val (get s ''additionalProperties'') = Some ap \<and> typeof_object ap \<and>
          analyze spec (Some ap) vis (Suc d) = Inr a \<and> r = add_extra (object_result d (length rs) rs) a)"
  | (prim) "r = no_analysis"
proof (cases "get s ''type'' = Some (JStr ''array'') \<and> truthy_val (get s ''items'') \<noteq> None")
  case True
  with res s show ?thesis by (auto intro: array simp: analyze_array_eq)
next
  case notarr: False
  show ?thesis
  proof (cases "get s ''type'' = Some (JStr ''object'') \<or> truthy_val (get s ''properties'') \<noteq> None")
    case True
    note eq = analyze_object_eq [OF s notarr True, of spec vis d]
    from res obtain rs where
      rs: "seq_sum (map (\<lambda>k. case analyze spec (get (props_of s) k) vis (Suc d) of
                  Inl e \<Rightarrow> Inl e
                | Inr r \<Rightarrow> map_sum id (Pair r) (prop_guard (get (props_of s) k) r))
              (js_keys (props_of s))) = Inr rs"
      by (cases "seq_sum (map (\<lambda>k. case analyze spec (get (props_of s) k) vis (Suc d) of
                  Inl e \<Rightarrow> Inl e
                | Inr r \<Rightarrow> map_sum id (Pair r) (prop_guard (get (props_of s) k) r))
              (js_keys (props_of s)))") (simp_all add: eq)
    then have len: "length rs = length (js_keys (props_of s))"
      by (rule seq_sum_map_length)
    from res rs len have "r = object_result d (length rs) rs \<or>
       (\<exists>ap a. truthy_val (get s ''additionalProperties'') = Some ap \<and> typeof_object ap \<and>
          analyze spec (Some ap) vis (Suc d) = Inr a \<and> r = add_extra (object_result d (length rs) rs) a)"
      by (auto simp: eq split: option.splits if_splits sum.splits)
    with notarr True rs len show ?thesis by (rule object)
  next
    case False
    with res s notarr show ?thesis by (auto intro: prim simp: analyze_prim_eq)
  qed
qed


lemma analyze_Inr_cases:
  assumes res: "analyze spec schema vis d = Inr r"
  obtains
    (absent) "truthy_val schema = None" "r = no_analysis"
  | (cycle) s q where "truthy_val schema = Some s" "truthy_val (get s ''$ref'') = Some (JStr q)"
      "q \<in> set vis" "r = \<lparr>fieldCount = 0, maxDepth = d\<rparr>"
  | (ref) s q where "truthy_val schema = Some s" "truthy_val (get s ''$ref'') = Some (JStr q)"
      "q \<notin> set vis" "analyze spec (resolve_ref spec q) (q # vis) d = Inr r"
  | (allOf) s a bs rs where "truthy_val schema = Some s" "truthy_val (get s ''$ref'') = None"
      "truthy_val (get s ''allOf'') = Some a" "js_iter a = Inr bs"
      "seq_sum (map (\<lambda>b. analyze spec (Some b) vis d) bs) = Inr rs" "r = all_of_result d rs"
  | (oneOf) s a bs rs where "truthy_val schema = Some s" "truthy_val (get s ''$ref'') = None"
      "truthy_val (get s ''allOf'') = None" "js_or (get s ''oneOf'') (get s ''anyOf'') = Some a"
      "js_iter a = Inr bs"
      "seq_sum (map (\<lambda>b. analyze spec (Some b) vis d) bs) = Inr rs" "r = one_of_result d rs"
  | (plain) s where "truthy_val schema = Some s" "truthy_val (get s ''$ref'') = None"
      "truthy_val (get s ''allOf'') = None" "js_or (get s ''oneOf'') (get s ''anyOf'') = None"
proof (cases "truthy_val schema")
  case None
  with res show ?thesis by (auto intro: absent simp: analyze_absent_eq)
next
  case sch: (Some s)
  show ?thesis
  proof (cases "truthy_val (get s ''$ref'')")
    case xref: (Some x)
    show ?thesis
    proof (cases "\<exists>q. x = JStr q")
      case True
      then obtain q where "x = JStr q" by blast
      with xref have q: "truthy_val (get s ''$ref'') = Some (JStr q)" by simp
      show ?thesis
      proof (cases "q \<in> set vis")
        case True
        with res analyze_ref_visited [OF sch q True] have "r = \<lparr>fieldCount = 0, maxDepth = d\<rparr>"
          by simp
        with sch q True show ?thesis by (rule cycle)
      next
        case False
        with res analyze_ref_unvisited [OF sch q False]
        have "analyze spec (resolve_ref spec q) (q # vis) d = Inr r" by simp
        with sch q False show ?thesis by (rule ref)
      qed
    next
      case False
      with res analyze_ref_bad [OF sch xref] show ?thesis by simp
    qed
  next
    case noref: None
    show ?thesis
    proof (cases "truthy_val (get s ''allOf'')")
      case (Some a)
      with sch noref res show ?thesis
        by (auto intro: allOf simp: analyze_allOf_eq split: sum.splits)
    next
      case noall: None
      with sch noref res show ?thesis
        by (cases "js_or (get s ''oneOf'') (get s ''anyOf'')")
          (auto intro: oneOf plain simp: analyze_oneOf_eq split: sum.splits)
    qed
  qed
qed

section \<open>Invariants of successful runs\<close>

text \<open>
  A property of (depth, result) that holds for the base results and is kept by
  the combination step of every rule holds for every result the analyser
  returns.  The bounds below are instances.
\<close>

lemma analyze_inv:
  fixes P :: "nat \<Rightarrow> analysis \<Rightarrow> bool"
  assumes base: "\<And>d. P d no_analysis"
    and cyc: "\<And>d. P d \<lparr>fieldCount = 0, maxDepth = d\<rparr>"
    and all: "\<And>d rs. \<forall>r\<in>set rs. P d r \<Longrightarrow> P d (all_of_result d rs)"
    and one: "\<And>d rs. \<forall>r\<in>set rs. P d r \<Longrightarrow> P d (one_of_result d rs)"
    and arr: "\<And>d r. P (Suc d) r \<Longrightarrow> P d r"
    and obj: "\<And>d rs. \<forall>p\<in>set rs. P (Suc d) (fst p) \<Longrightarrow> P d (object_result d (length rs) rs)"
    and objx: "\<And>d rs a. \<forall>p\<in>set rs. P (Suc d) (fst p) \<Longrightarrow> P (Suc d) a \<Longrightarrow>
                 P d (add_extra (object_result d (length rs) rs) a)"
  shows "analyze spec schema vis d = Inr r \<Longrightarrow> P d r"
proof (induction spec schema vis d arbitrary: r rule: analyze.induct)
  case (1 spec schema vis d r)
  from "1.prems" show ?case
  proof (cases rule: analyze_Inr_cases)
    case absent
    then show ?thesis by (simp add: base)
  next
    case cycle
    then show ?thesis by (simp add: cyc)
  next
    case (ref s q)
    show ?thesis by (rule "1.IH"(6) [OF ref(1,2) refl ref(3,4)])
  next
    case (allOf s a bs rs)
    have "\<forall>r\<in>set rs. P d r"
    proof
      fix r assume "r \<in> set rs"
      with allOf(5) obtain b where "b \<in> set bs" "analyze spec (Some b) vis d = Inr r"
        by (blast dest: seq_sum_map_memD)
      then show "P d r" by (rule "1.IH"(5) [OF allOf(1-4)])
    qed
    with allOf(6) show ?thesis by (simp add: all)
  next
    case (oneOf s a bs rs)
    have "\<forall>r\<in>set rs. P d r"
    proof
      fix r assume "r \<in> set rs"
      with oneOf(6) obtain b where "b \<in> set bs" "analyze spec (Some b) vis d = Inr r"
        by (blast dest: seq_sum_map_memD)
      then show "P d r" by (rule "1.IH"(4) [OF oneOf(1-5)])
    qed
    with oneOf(7) show ?thesis by (simp add: one)
  next
    case (plain s)
    from "1.prems" plain show ?thesis
    proof (cases rule: analyze_Inr_plain_cases)
      case array
      have "P (Suc d) r" by (rule "1.IH"(1) [OF plain array])
      then show ?thesis by (rule arr)
    next
      case (object rs)
      have props: "\<forall>p\<in>set rs. P (Suc d) (fst p)"
      proof
        fix p assume p: "p \<in> set rs"
        obtain r' b where pp: "p = (r', b)" by (cases p)
        from seq_sum_map_memD [OF object(3) p] obtain k
          where k: "k \<in> set (js_keys (props_of s))"
            and step: "(case analyze spec (get (props_of s) k) vis (Suc d) of
                  Inl e \<Rightarrow> Inl e
                | Inr r \<Rightarrow> map_sum id (Pair r) (prop_guard (get (props_of s) k) r)) = Inr p"
          by blast
        from case_pair_step_Inr [OF step [unfolded pp]]
        have "analyze spec (get (props_of s) k) vis (Suc d) = Inr r'" by simp
        then have "P (Suc d) r'" by (rule "1.IH"(2) [OF plain object(1,2) k])
        with pp show "P (Suc d) (fst p)" by simp
      qed
      from object(5) show ?thesis
      proof
        assume "r = object_result d (length rs) rs"
        with props show ?thesis by (simp add: obj)
      next
        assume "\<exists>ap a. truthy_val (get s ''additionalProperties'') = Some ap \<and> typeof_object ap \<and>
          analyze spec (Some ap) vis (Suc d) = Inr a \<and> r = add_extra (object_result d (length rs) rs) a"
        then obtain ap a where ap: "truthy_val (get s ''additionalProperties'') = Some ap"
          "typeof_object ap" and a: "analyze spec (Some ap) vis (Suc d) = Inr a"
          and r: "r = add_extra (object_result d (length rs) rs) a" by blast
        have "P (Suc d) a" by (rule "1.IH"(3) [OF plain object(1,2,3) ap a])
        with props r show ?thesis by (simp add: objx)
      qed
    next
      case prim
      then show ?thesis by (simp add: base)
    qed
  qed
qed


section \<open>Runs of the object rule\<close>

text \<open>
  The loop over the properties of an object schema whose property schemas all
  analyse without error: its guard never throws, and it adds the nested count of
  exactly the structural properties.
\<close>

lemma prop_guard_run:
  "analyze spec (Some v) vis e = Inr r \<Longrightarrow> prop_guard (Some v) r = Inr (0 < fieldCount r \<and> structural v)"
proof (cases "v = JNull")
  case True
  moreover assume "analyze spec (Some v) vis e = Inr r"
  ultimately have "r = no_analysis" by (simp add: analyze_absent_eq)
  then show ?thesis by simp
qed (simp add: prop_guard_def)

lemma object_props_run:
  assumes "list_all2 (\<lambda>(k, v) r. analyze spec (Some v) vis e = Inr r) kvs rs"
    and F: "\<And>v r. analyze spec (Some v) vis e = Inr r \<Longrightarrow> F (Some v) = Inr (r, 0 < fieldCount r \<and> structural v)"
  shows "\<exists>ps. seq_sum (map (\<lambda>kv. F (Some (snd kv))) kvs) = Inr ps \<and> map fst ps = rs \<and>
           sum_list (map (\<lambda>(r, add). if add then fieldCount r else 0) ps) =
           sum_list (map2 (\<lambda>(k, v) r. if structural v then fieldCount r else 0) kvs rs)"
  using assms(1)
proof (induction rule: list_all2_induct)
  case (Cons kv kvs r rs)
  obtain k v where kv: "kv = (k, v)" by (cases kv)
  with Cons.hyps(1) have run: "analyze spec (Some v) vis e = Inr r" by simp
  from Cons.IH obtain ps where ps: "seq_sum (map (\<lambda>kv. F (Some (snd kv))) kvs) = Inr ps"
      "map fst ps = rs"
      "sum_list (map (\<lambda>(r, add). if add then fieldCount r else 0) ps) =
       sum_list (map2 (\<lambda>(k, v) r. if structural v then fieldCount r else 0) kvs rs)"
    by blast
  show ?case
    by (rule exI [of _ "(r, 0 < fieldCount r \<and> structural v) # ps"]) (simp add: kv F [OF run] ps)
qed simp

section \<open>Runs without exceptions\<close>

text \<open>The object rule does not throw when its recursive calls do not.\<close>

lemma prop_guard_ok: "analyze spec p vis e = Inr r \<Longrightarrow> \<exists>b. prop_guard p r = Inr b"
proof (cases "truthy_val p")
  case None
  moreover assume "analyze spec p vis e = Inr r"
  ultimately show ?thesis by (auto simp: analyze_absent_eq)
qed (auto simp: prop_guard_def)

lemma analyze_object_ok:
  assumes plain: "truthy_val schema = Some s" "truthy_val (get s ''$ref'') = None"
      "truthy_val (get s ''allOf'') = None" "js_or (get s ''oneOf'') (get s ''anyOf'') = None"
    and notarr: "\<not> (get s ''type'' = Some (JStr ''array'') \<and> truthy_val (get s ''items'') \<noteq> None)"
    and isobj: "get s ''type'' = Some (JStr ''object'') \<or> truthy_val (get s ''properties'') \<noteq> None"
    and props: "\<And>kk. kk \<in> set (js_keys (props_of s)) \<Longrightarrow>
      \<exists>r. analyze spec (get (props_of s) kk) vis (Suc d) = Inr r"
    and extra: "\<And>rs ap. seq_sum (map (\<lambda>kk. case analyze spec (get (props_of s) kk) vis (Suc d) of
        Inl e \<Rightarrow> Inl e | Inr r \<Rightarrow> map_sum id (Pair r) (prop_guard (get (props_of s) kk) r))
        (js_keys (props_of s))) = Inr rs \<Longrightarrow>
      truthy_val (get s ''additionalProperties'') = Some ap \<Longrightarrow> typeof_object ap \<Longrightarrow>
      \<exists>a. analyze spec (Some ap) vis (Suc d) = Inr a"
  shows "\<exists>r. analyze spec schema vis d = Inr r"
proof -
  have "\<forall>kk\<in>set (js_keys (props_of s)). \<exists>p. (case analyze spec (get (props_of s) kk) vis (Suc d) of
        Inl e \<Rightarrow> Inl e | Inr r \<Rightarrow> map_sum id (Pair r) (prop_guard (get (props_of s) kk) r)) = Inr p"
  proof
    fix kk assume "kk \<in> set (js_keys (props_of s))"
    from props [OF this] obtain r where r: "analyze spec (get (props_of s) kk) vis (Suc d) = Inr r" ..
    from prop_guard_ok [OF r] show "\<exists>p. (case analyze spec (get (props_of s) kk) vis (Suc d) of
        Inl e \<Rightarrow> Inl e | Inr r \<Rightarrow> map_sum id (Pair r) (prop_guard (get (props_of s) kk) r)) = Inr p"
      by (auto simp: r)
  qed
  from seq_sum_map_ok [OF this] obtain rs where rs: "seq_sum (map (\<lambda>kk. case analyze spec (get (props_of s) kk) vis (Suc d) of
        Inl e \<Rightarrow> Inl e | Inr r \<Rightarrow> map_sum id (Pair r) (prop_guard (get (props_of s) kk) r))
        (js_keys (props_of s))) = Inr rs" ..
  show ?thesis
    using extra [OF rs] unfolding analyze_object_eq [OF plain notarr isobj] rs
    by (auto split: option.splits)
qed

section \<open>Runs at different depths\<close>

text \<open>
  The two steps of the translation argument below: a composition loop and the
  object rule commute with \<open>shift_depth\<close> when their recursive calls do.
\<close>

lemma composition_shift:
  assumes "\<forall>b\<in>set bs. analyze spec (Some b) vis (d + k) =
             map_sum id (shift_depth k) (analyze spec (Some b) vis d)"
    and "\<And>rs. comb (d + k) (map (shift_depth k) rs) = shift_depth k (comb d rs)"
  shows "map_sum id (comb (d + k)) (seq_sum (map (\<lambda>b. analyze spec (Some b) vis (d + k)) bs)) =
         map_sum id (shift_depth k) (map_sum id (comb d) (seq_sum (map (\<lambda>b. analyze spec (Some b) vis d) bs)))"
proof -
  have "seq_sum (map (\<lambda>b. analyze spec (Some b) vis (d + k)) bs) =
      map_sum id (map (shift_depth k)) (seq_sum (map (\<lambda>b. analyze spec (Some b) vis d) bs))"
    using assms(1) by (rule seq_sum_map_map_sum)
  then show ?thesis using assms(2)
    by (cases "seq_sum (map (\<lambda>b. analyze spec (Some b) vis d) bs)") simp_all
qed

lemma analyze_object_shift:
  assumes plain: "truthy_val schema = Some s" "truthy_val (get s ''$ref'') = None"
      "truthy_val (get s ''allOf'') = None" "js_or (get s ''oneOf'') (get s ''anyOf'') = None"
    and notarr: "\<not> (get s ''type'' = Some (JStr ''array'') \<and> truthy_val (get s ''items'') \<noteq> None)"
    and isobj: "get s ''type'' = Some (JStr ''object'') \<or> truthy_val (get s ''properties'') \<noteq> None"
    and d: "0 < d"
    and props: "\<And>kk. kk \<in> set (js_keys (props_of s)) \<Longrightarrow>
      analyze spec (get (props_of s) kk) vis (Suc (d + k)) =
      map_sum id (shift_depth k) (analyze spec (get (props_of s) kk) vis (Suc d))"
    and extra: "\<And>rs ap. seq_sum (map (\<lambda>kk. case analyze spec (get (props_of s) kk) vis (Suc d) of
        Inl e \<Rightarrow> Inl e | Inr r \<Rightarrow> map_sum id (Pair r) (prop_guard (get (props_of s) kk) r))
        (js_keys (props_of s))) = Inr rs \<Longrightarrow>
      truthy_val (get s ''additionalProperties'') = Some ap \<Longrightarrow> typeof_object ap \<Longrightarrow>
      analyze spec (Some ap) vis (Suc (d + k)) = map_sum id (shift_depth k) (analyze spec (Some ap) vis (Suc d))"
  shows "analyze spec schema vis (d + k) = map_sum id (shift_depth k) (analyze spec schema vis d)"
proof -
  define step where "step e = (\<lambda>kk. case analyze spec (get (props_of s) kk) vis e of
      Inl e \<Rightarrow> Inl e | Inr r \<Rightarrow> map_sum id (Pair r) (prop_guard (get (props_of s) kk) r))" for e
  have steps: "seq_sum (map (step (Suc (d + k))) (js_keys (props_of s))) =
      map_sum id (map (apfst (shift_depth k))) (seq_sum (map (step (Suc d)) (js_keys (props_of s))))"
    by (rule seq_sum_map_map_sum) (simp add: step_def props prop_step_shift del: map_sum.simps)
  note eqk = analyze_object_eq [OF plain notarr isobj, of spec vis "d + k", folded step_def]
  note eqd = analyze_object_eq [OF plain notarr isobj, of spec vis d, folded step_def]
  show ?thesis
  proof (cases "seq_sum (map (step (Suc d)) (js_keys (props_of s)))")
    case (Inr rs)
    note obj = object_result_shift [OF d, of k _ rs]
    show ?thesis
    proof (cases "truthy_val (get s ''additionalProperties'')")
      case (Some ap)
      show ?thesis
      proof (cases "typeof_object ap")
        case True
        then show ?thesis using Inr Some extra [OF Inr [unfolded step_def] Some True]
          by (cases "analyze spec (Some ap) vis (Suc d)")
            (simp_all add: eqk eqd steps obj add_extra_shift [symmetric])
      qed (simp add: eqk eqd steps Inr Some obj)
    qed (simp add: eqk eqd steps Inr obj)
  qed (simp add: eqk eqd steps)
qed


section \<open>Schemas with a type only\<close>

lemma analyze_type_only: "analyze spec (Some (jtype t)) vis d = Inr no_analysis"
proof (cases "t = ''object''")
  case True
  have "props_of (jtype t) = JObj []" by (simp add: props_of_def jtype_def)
  with True show ?thesis
    by (subst analyze_object_eq [of _ "jtype t"]) (simp_all add: jtype_def js_or_def)
next
  case False
  then show ?thesis
    by (subst analyze_prim_eq [of _ "jtype t"]) (simp_all add: jtype_def js_or_def)
qed

lemma analyze_leaf_object:
  "analyze spec (Some (jobject [(k, jtype t)])) vis d = Inr \<lparr>fieldCount = 1, maxDepth = d\<rparr>"
proof -
  have "props_of (jobject [(k, jtype t)]) = JObj [(k, jtype t)]"
    by (simp add: props_of_def jobject_def)
  then show ?thesis
    by (subst analyze_object_eq [of _ "jobject [(k, jtype t)]"])
      (simp_all add: jobject_def js_or_def analyze_type_only object_result_def)
qed

section \<open>Well-typed documents\<close>

text \<open>No exception on a well-typed document, by computation induction.\<close>

lemma analyze_well_typed_ok:
  "well_typed spec \<Longrightarrow> pred_option well_typed schema \<Longrightarrow> \<exists>r. analyze spec schema vis d = Inr r"
proof (induction spec schema vis d rule: analyze.induct)
  case (1 spec schema vis d)
  note wt = "1.prems"(1)
  show ?case
  proof (cases "truthy_val schema")
    case None
    then show ?thesis by (simp add: analyze_absent_eq)
  next
    case sch: (Some s)
    with "1.prems"(2) have ws: "well_typed s" by simp
    have wg: "pred_option well_typed (get s k)" for k
      using well_typed_get [OF ws] by (cases "get s k") simp_all
    show ?thesis
    proof (cases "truthy_val (get s ''$ref'')")
      case xref: (Some x)
      then obtain q where q: "truthy_val (get s ''$ref'') = Some (JStr q)"
        using well_typed_ref [OF ws xref] by blast
      show ?thesis
      proof (cases "q \<in> set vis")
        case False
        from "1.IH"(6) [OF sch q refl False wt well_typed_resolve [OF wt]] show ?thesis
          by (simp add: analyze_ref_unvisited [OF sch q False])
      qed (simp add: analyze_ref_visited [OF sch q])
    next
      case noref: None
      show ?thesis
      proof (cases "truthy_val (get s ''allOf'')")
        case all: (Some a)
        from well_typed_iterable [OF ws all] obtain bs where bs: "js_iter a = Inr bs" by auto
        have wa: "well_typed a" using wg [of "''allOf''"] all by simp
        have "\<forall>b\<in>set bs. \<exists>r. analyze spec (Some b) vis d = Inr r"
          using "1.IH"(5) [OF sch noref all bs _ wt] well_typed_iter [OF wa bs] by simp
        from seq_sum_map_ok [OF this] show ?thesis
          by (auto simp: analyze_allOf_eq [OF sch noref all] bs)
      next
        case noall: None
        show ?thesis
        proof (cases "js_or (get s ''oneOf'') (get s ''anyOf'')")
          case one: (Some a)
          from js_or_Some [OF one] have "truthy_val (get s ''oneOf'') = Some a \<or>
              truthy_val (get s ''anyOf'') = Some a" by auto
          then have "(\<exists>bs. js_iter a = Inr bs) \<and> well_typed a"
            using well_typed_iterable [OF ws] wg [of "''oneOf''"] wg [of "''anyOf''"] by auto
          then obtain bs where bs: "js_iter a = Inr bs" and wa: "well_typed a" by blast
          have "\<forall>b\<in>set bs. \<exists>r. analyze spec (Some b) vis d = Inr r"
            using "1.IH"(4) [OF sch noref noall one bs _ wt] well_typed_iter [OF wa bs] by simp
          from seq_sum_map_ok [OF this] show ?thesis
            by (auto simp: analyze_oneOf_eq [OF sch noref noall one] bs)
        next
          case noone: None
          note plain = sch noref noall noone
          show ?thesis
          proof (cases "get s ''type'' = Some (JStr ''array'') \<and> truthy_val (get s ''items'') \<noteq> None")
            case True
            with "1.IH"(1) [OF plain True wt wg] show ?thesis by (simp add: analyze_array_eq [OF plain])
          next
            case notarr: False
            show ?thesis
            proof (cases "get s ''type'' = Some (JStr ''object'') \<or> truthy_val (get s ''properties'') \<noteq> None")
              case True
              have wp: "pred_option well_typed (get (props_of s) k)" for k
                using well_typed_get [OF well_typed_props [OF ws]] by (cases "get (props_of s) k") simp_all
              show ?thesis
                by (rule analyze_object_ok [OF plain notarr True "1.IH"(2) [OF plain notarr True _ wt wp]
                    "1.IH"(3) [OF plain notarr True _ _ _ wt]]) (auto intro: well_typed_get [OF ws])
            qed (simp add: analyze_prim_eq [OF plain notarr])
          qed
        qed
      qed
    qed
  qed
qed

section \<open>The exceptions of the analyser\<close>

lemma js_iter_Inl: "js_iter a = Inl e \<Longrightarrow> e = TypeError"
  by (cases a) auto

lemma prop_guard_Inl: "prop_guard p r = Inl e \<Longrightarrow> e = TypeError"
  by (auto simp: prop_guard_def split: if_splits option.splits)

text \<open>The only exception that escapes the analyser is a \<^verbatim>\<open>TypeError\<close>, by computation induction.\<close>

lemma analyze_Inl_TypeError: "analyze spec schema vis d = Inl e \<Longrightarrow> e = TypeError"
proof (induction spec schema vis d rule: analyze.induct)
  case (1 spec schema vis d)
  note run = "1.prems"
  show ?case
  proof (cases "truthy_val schema")
    case None
    with run show ?thesis by (simp add: analyze_absent_eq)
  next
    case sch: (Some s)
    show ?thesis
    proof (cases "truthy_val (get s ''$ref'')")
      case xref: (Some x)
      show ?thesis
      proof (cases "\<exists>q. x = JStr q")
        case True
        then obtain q where q: "truthy_val (get s ''$ref'') = Some (JStr q)" using xref by blast
        show ?thesis
        proof (cases "q \<in> set vis")
          case False
          with run show ?thesis by (intro "1.IH"(6) [OF sch q refl False]) (simp add: analyze_ref_unvisited [OF sch q False])
        qed (use run analyze_ref_visited [OF sch q] in simp)
      qed (use run analyze_ref_bad [OF sch xref] in auto)
    next
      case noref: None
      show ?thesis
      proof (cases "truthy_val (get s ''allOf'')")
        case all: (Some a)
        show ?thesis
        proof (cases "js_iter a")
          case (Inr bs)
          with run obtain b where "b \<in> set bs" "analyze spec (Some b) vis d = Inl e"
            by (auto simp: analyze_allOf_eq [OF sch noref all] dest: seq_sum_map_InlD)
          then show ?thesis by (rule "1.IH"(5) [OF sch noref all Inr])
        qed (use run in \<open>auto simp: analyze_allOf_eq [OF sch noref all] intro: js_iter_Inl\<close>)
      next
        case noall: None
        show ?thesis
        proof (cases "js_or (get s ''oneOf'') (get s ''anyOf'')")
          case one: (Some a)
          show ?thesis
          proof (cases "js_iter a")
            case (Inr bs)
            with run obtain b where "b \<in> set bs" "analyze spec (Some b) vis d = Inl e"
              by (auto simp: analyze_oneOf_eq [OF sch noref noall one] dest: seq_sum_map_InlD)
            then show ?thesis by (rule "1.IH"(4) [OF sch noref noall one Inr])
          qed (use run in \<open>auto simp: analyze_oneOf_eq [OF sch noref noall one] intro: js_iter_Inl\<close>)
        next
          case noone: None
          note plain = sch noref noall noone
          show ?thesis
          proof (cases "get s ''type'' = Some (JStr ''array'') \<and> truthy_val (get s ''items'') \<noteq> None")
            case True
            with run show ?thesis by (intro "1.IH"(1) [OF plain True]) (simp add: analyze_array_eq [OF plain])
          next
            case notarr: False
            show ?thesis
            proof (cases "get s ''type'' = Some (JStr ''object'') \<or> truthy_val (get s ''properties'') \<noteq> None")
              case isobj: True
              from run show ?thesis
                unfolding analyze_object_eq [OF plain notarr isobj]
                by (auto split: sum.splits option.splits if_splits
                    dest!: seq_sum_map_InlD dest: prop_guard_Inl "1.IH"(2) [OF plain notarr isobj]
                      "1.IH"(3) [OF plain notarr isobj])
            qed (use run analyze_prim_eq [OF plain notarr] in simp)
          qed
        qed
      qed
    qed
  qed
qed

section \<open>Properties of the analyser\<close>

text \<open>
  C1: a schema whose reference leads to a node that refers to itself is analysed
  to completion and gives no fields at the current depth (spec section 8, cycle
  detection); the second visit of the pointer hits the visited set.
\<close>

theorem analyze_self_reference:
  assumes "get s0 ''$ref'' = Some (JStr q)" "q \<noteq> []" "resolve_ref spec q = Some s"
    and "get s ''$ref'' = Some (JStr q)" "q \<notin> set vis"
  shows "analyze spec (Some s0) vis d = Inr \<lparr>fieldCount = 0, maxDepth = d\<rparr>"
proof -
  have t0: "truthy_val (Some s0) = Some s0" and t: "truthy_val (Some s) = Some s"
    using keyword_truthy [OF assms(1)] keyword_truthy [OF assms(4)]
    by (simp_all add: keyword_not_index)
  have r0: "truthy_val (get s0 ''$ref'') = Some (JStr q)"
    and r: "truthy_val (get s ''$ref'') = Some (JStr q)"
    using assms(1,2,4) by simp_all
  have "analyze spec (Some s0) vis d = analyze spec (Some s) (q # vis) d"
    using analyze_ref_unvisited [OF t0 r0 assms(5)] assms(3) by simp
  also have "\<dots> = Inr \<lparr>fieldCount = 0, maxDepth = d\<rparr>"
    by (rule analyze_ref_visited [OF t r]) simp
  finally show ?thesis .
qed

theorem analyze_self_reference_witness:
  "analyze node_doc (Some (jref ''#/components/schemas/Loop'')) [] 1 =
     Inr \<lparr>fieldCount = 0, maxDepth = 1\<rparr>"
proof -
  have "resolve_ref node_doc ''#/components/schemas/Loop'' = Some (jref ''#/components/schemas/Loop'')"
    unfolding node_doc_def resolve_ref_def jref_def jobject_def jtype_def by code_simp
  then show ?thesis
    by (rule analyze_self_reference [rotated 2]) (simp_all add: jref_def)
qed

text \<open>
  C2: an \<^verbatim>\<open>allOf\<close> composition adds the field counts of its branches and takes
  the largest of the current depth and the branch depths; every branch is
  analysed with the caller's visited set, not with the pointers its siblings
  visited.
\<close>

theorem analyze_allOf:
  assumes "truthy_val (get s ''$ref'') = None" "get s ''allOf'' = Some (JArr bs)"
    and "list_all2 (\<lambda>b r. analyze spec (Some b) vis d = Inr r) bs rs"
  shows "analyze spec (Some s) vis d =
    Inr \<lparr>fieldCount = sum_list (map fieldCount rs), maxDepth = Max (insert d (set (map maxDepth rs)))\<rparr>"
proof -
  have t: "truthy_val (Some s) = Some s"
    using keyword_truthy [OF assms(2)] by (simp add: keyword_not_index)
  from assms(3) have "seq_sum (map (\<lambda>b. analyze spec (Some b) vis d) bs) = Inr rs"
    by (simp add: seq_sum_map_Inr_iff)
  with analyze_allOf_eq [OF t assms(1)] assms(2) show ?thesis
    by (simp add: all_of_result_def fold_max_eq_Max)
qed

theorem analyze_allOf_witness:
  "analyze node_doc (Some (JObj [(''allOf'', JArr [jref ''#/components/schemas/Node'',
      jobject [(''id'', jtype ''integer'')]])])) [] 1 = Inr \<lparr>fieldCount = 3, maxDepth = 2\<rparr>"
proof -
  have "list_all2 (\<lambda>b r. analyze node_doc (Some b) [] 1 = Inr r)
      [jref ''#/components/schemas/Node'', jobject [(''id'', jtype ''integer'')]]
      [\<lparr>fieldCount = 2, maxDepth = 2\<rparr>, \<lparr>fieldCount = 1, maxDepth = 1\<rparr>]"
    unfolding node_doc_def jref_def jobject_def jtype_def by code_simp
  from analyze_allOf [OF _ _ this] show ?thesis by simp
qed


text \<open>
  C3: a \<^verbatim>\<open>oneOf\<close> composition (or \<^verbatim>\<open>anyOf\<close> when there is no truthy
  \<^verbatim>\<open>oneOf\<close>) takes the largest field count of its branches (0 for none) and
  the largest of the current depth and the branch depths.
\<close>

theorem analyze_oneOf:
  assumes "truthy_val (get s ''$ref'') = None" "truthy_val (get s ''allOf'') = None"
    and "get s ''oneOf'' = Some (JArr bs) \<or>
         truthy_val (get s ''oneOf'') = None \<and> get s ''anyOf'' = Some (JArr bs)"
    and "list_all2 (\<lambda>b r. analyze spec (Some b) vis d = Inr r) bs rs"
  shows "analyze spec (Some s) vis d =
    Inr \<lparr>fieldCount = Max (insert 0 (set (map fieldCount rs))),
         maxDepth = Max (insert d (set (map maxDepth rs)))\<rparr>"
proof -
  have t: "truthy_val (Some s) = Some s"
  proof (cases "get s ''oneOf'' = Some (JArr bs)")
    case True
    from keyword_truthy [OF True] show ?thesis by (simp add: keyword_not_index)
  next
    case False
    with assms(3) have "get s ''anyOf'' = Some (JArr bs)" by simp
    from keyword_truthy [OF this] show ?thesis by (simp add: keyword_not_index)
  qed
  have or: "js_or (get s ''oneOf'') (get s ''anyOf'') = Some (JArr bs)"
    using assms(3) by (auto simp: js_or_def)
  from assms(4) have "seq_sum (map (\<lambda>b. analyze spec (Some b) vis d) bs) = Inr rs"
    by (simp add: seq_sum_map_Inr_iff)
  with analyze_oneOf_eq [OF t assms(1,2) or] show ?thesis
    by (simp add: one_of_result_def fold_max_eq_Max)
qed

theorem analyze_oneOf_witness:
  "analyze node_doc (Some (JObj [(''oneOf'', JArr [jref ''#/components/schemas/Node'',
      jobject [(''id'', jtype ''integer'')]])])) [] 1 = Inr \<lparr>fieldCount = 2, maxDepth = 2\<rparr>"
proof -
  have "list_all2 (\<lambda>b r. analyze node_doc (Some b) [] 1 = Inr r)
      [jref ''#/components/schemas/Node'', jobject [(''id'', jtype ''integer'')]]
      [\<lparr>fieldCount = 2, maxDepth = 2\<rparr>, \<lparr>fieldCount = 1, maxDepth = 1\<rparr>]"
    unfolding node_doc_def jref_def jobject_def jtype_def by code_simp
  from analyze_oneOf [OF _ _ _ this] show ?thesis by simp
qed

text \<open>
  C4: an array schema with a truthy \<^verbatim>\<open>items\<close> is analysed as its items one
  level deeper: field count and depth pass through unchanged.
\<close>

theorem analyze_array:
  assumes "truthy_val (get s ''$ref'') = None" "truthy_val (get s ''allOf'') = None"
    and "truthy_val (get s ''oneOf'') = None" "truthy_val (get s ''anyOf'') = None"
    and "get s ''type'' = Some (JStr ''array'')" "truthy_val (get s ''items'') = Some i"
  shows "analyze spec (Some s) vis d = analyze spec (Some i) vis (Suc d)"
proof -
  have t: "truthy_val (Some s) = Some s"
    using keyword_truthy [OF assms(5)] by (simp add: keyword_not_index)
  have "js_or (get s ''oneOf'') (get s ''anyOf'') = None"
    using assms(3,4) by (simp add: js_or_def)
  with analyze_array_eq [OF t assms(1,2)] assms(5,6) show ?thesis by simp
qed

theorem analyze_array_witness:
  "analyze node_doc (Some (JObj [(''type'', JStr ''array''), (''items'', jref ''#/components/schemas/Node'')])) [] 1 =
   analyze node_doc (Some (jref ''#/components/schemas/Node'')) [] (Suc 1)"
  by (rule analyze_array) (simp_all add: jref_def)

text \<open>
  C5: a reference whose pointer names nothing in the document (the resolver
  returns \<^verbatim>\<open>undefined\<close>) contributes no fields and no depth, and no error.
\<close>

theorem analyze_dangling_ref:
  assumes "get s ''$ref'' = Some (JStr q)" "q \<noteq> []" "q \<notin> set vis" "resolve_ref spec q = None"
  shows "analyze spec (Some s) vis d = Inr no_analysis"
proof -
  have t: "truthy_val (Some s) = Some s"
    using keyword_truthy [OF assms(1)] by (simp add: keyword_not_index)
  from assms(1,2) have r: "truthy_val (get s ''$ref'') = Some (JStr q)" by simp
  from analyze_ref_unvisited [OF t r assms(3)] assms(4) show ?thesis
    by (simp add: analyze_absent_eq)
qed

theorem analyze_dangling_ref_witness:
  "analyze node_doc (Some (jref ''#/components/schemas/Missing'')) [] 1 = Inr no_analysis"
proof -
  have "resolve_ref node_doc ''#/components/schemas/Missing'' = None"
    unfolding node_doc_def resolve_ref_def jref_def jobject_def jtype_def by code_simp
  then show ?thesis by (rule analyze_dangling_ref [rotated 3]) (simp_all add: jref_def)
qed

text \<open>
  C6: the depth of every result is 0 or at least the depth the analysis started
  at: depth never decreases below the caller's level.
\<close>

theorem analyze_depth_bound:
  assumes "analyze spec schema vis d = Inr r"
  shows "maxDepth r = 0 \<or> d \<le> maxDepth r"
proof (rule analyze_inv [where P = "\<lambda>d r. maxDepth r = 0 \<or> d \<le> maxDepth r", rotated 7, OF assms])
  fix d :: nat and rs :: "(analysis \<times> bool) list" and a :: analysis
  assume "\<forall>p\<in>set rs. maxDepth (fst p) = 0 \<or> Suc d \<le> maxDepth (fst p)"
    and "maxDepth a = 0 \<or> Suc d \<le> maxDepth a"
  then show "maxDepth (add_extra (object_result d (length rs) rs) a) = 0 \<or>
             d \<le> maxDepth (add_extra (object_result d (length rs) rs) a)"
    by (cases "rs = []") (auto simp: max_def fold_max_ge_start intro: le_trans [OF fold_max_ge_start])
qed (auto simp: fold_max_ge_start dest: object_result_depth_ge)

theorem analyze_depth_bound_witness:
  "analyze node_doc (Some (jref ''#/components/schemas/Node'')) [] 1 = Inr \<lparr>fieldCount = 2, maxDepth = 2\<rparr> \<and>
   (maxDepth \<lparr>fieldCount = 2, maxDepth = 2\<rparr> = 0 \<or> (1::nat) \<le> maxDepth \<lparr>fieldCount = 2, maxDepth = (2::nat)\<rparr>)"
proof -
  have h: "analyze node_doc (Some (jref ''#/components/schemas/Node'')) [] 1 =
      Inr \<lparr>fieldCount = 2, maxDepth = 2\<rparr>"
    unfolding node_doc_def jref_def jobject_def jtype_def by code_simp
  from h analyze_depth_bound [OF h] show ?thesis by simp
qed

text \<open>
  C7: a result that counts any field reaches at least the starting depth (so at
  depth 1 or more, a depth of 0 means no fields).
\<close>

theorem analyze_fields_depth:
  assumes "analyze spec schema vis d = Inr r" "0 < fieldCount r"
  shows "d \<le> maxDepth r"
proof -
  have "0 < fieldCount r \<longrightarrow> d \<le> maxDepth r"
  proof (rule analyze_inv [where P = "\<lambda>d r. 0 < fieldCount r \<longrightarrow> d \<le> maxDepth r", rotated 7,
        OF assms(1)])
    fix d :: nat and rs :: "(analysis \<times> bool) list" and a :: analysis
    assume "\<forall>p\<in>set rs. 0 < fieldCount (fst p) \<longrightarrow> Suc d \<le> maxDepth (fst p)"
      and "0 < fieldCount a \<longrightarrow> Suc d \<le> maxDepth a"
    then show "0 < fieldCount (add_extra (object_result d (length rs) rs) a) \<longrightarrow>
               d \<le> maxDepth (add_extra (object_result d (length rs) rs) a)"
      by (cases "rs = []") (auto simp: max_def fold_max_ge_start intro: le_trans [OF fold_max_ge_start])
  qed (auto simp: fold_max_ge_start dest: object_result_depth_ge)
  with assms(2) show ?thesis by simp
qed

theorem analyze_fields_depth_witness:
  "analyze node_doc (Some (jobject [(''id'', jtype ''integer'')])) [] 3 = Inr \<lparr>fieldCount = 1, maxDepth = 3\<rparr> \<and>
   (3::nat) \<le> maxDepth \<lparr>fieldCount = 1::nat, maxDepth = 3::nat\<rparr>"
proof -
  have h: "analyze node_doc (Some (jobject [(''id'', jtype ''integer'')])) [] 3 =
      Inr \<lparr>fieldCount = 1, maxDepth = 3\<rparr>"
    unfolding node_doc_def jobject_def jtype_def by code_simp
  from h analyze_fields_depth [OF h] show ?thesis by simp
qed

text \<open>
  C8: the starting depth only translates the result: started \<open>k\<close> levels
  deeper (from a depth of at least 1), the analyser raises the same errors and
  returns the same field count, and every nonzero depth is \<open>k\<close> larger.  Depth
  measures structural nesting relative to the caller (spec section 4.3).
\<close>

theorem analyze_shift:
  "0 < d \<Longrightarrow> analyze spec schema vis (d + k) = map_sum id (shift_depth k) (analyze spec schema vis d)"
proof (induction spec schema vis d rule: analyze.induct)
  case (1 spec schema vis d)
  show ?case
  proof (cases "truthy_val schema")
    case None
    then show ?thesis by (simp add: analyze_absent_eq)
  next
    case sch: (Some s)
    show ?thesis
    proof (cases "truthy_val (get s ''$ref'')")
      case xref: (Some x)
      show ?thesis
      proof (cases "\<exists>q. x = JStr q")
        case True
        then obtain q where q: "truthy_val (get s ''$ref'') = Some (JStr q)" using xref by blast
        show ?thesis
        proof (cases "q \<in> set vis")
          case True
          with "1.prems" show ?thesis by (simp add: analyze_ref_visited [OF sch q] shift_depth_def)
        next
          case False
          with "1.IH"(6) [OF sch q refl False "1.prems"] show ?thesis
            by (simp add: analyze_ref_unvisited [OF sch q False])
        qed
      qed (simp add: analyze_ref_bad [OF sch xref])
    next
      case noref: None
      show ?thesis
      proof (cases "truthy_val (get s ''allOf'')")
        case all: (Some a)
        show ?thesis
        proof (cases "js_iter a")
          case (Inr bs)
          have "\<forall>b\<in>set bs. analyze spec (Some b) vis (d + k) =
              map_sum id (shift_depth k) (analyze spec (Some b) vis d)"
            using "1.IH"(5) [OF sch noref all Inr _ "1.prems"] by (simp add: id_def)
          from composition_shift [where comb = all_of_result, OF this all_of_result_shift [OF "1.prems"]] Inr show ?thesis
            by (simp add: analyze_allOf_eq [OF sch noref all] id_def)
        qed (simp add: analyze_allOf_eq [OF sch noref all])
      next
        case noall: None
        show ?thesis
        proof (cases "js_or (get s ''oneOf'') (get s ''anyOf'')")
          case one: (Some a)
          show ?thesis
          proof (cases "js_iter a")
            case (Inr bs)
            have "\<forall>b\<in>set bs. analyze spec (Some b) vis (d + k) =
                map_sum id (shift_depth k) (analyze spec (Some b) vis d)"
              using "1.IH"(4) [OF sch noref noall one Inr _ "1.prems"] by (simp add: id_def)
            from composition_shift [where comb = one_of_result, OF this one_of_result_shift [OF "1.prems"]] Inr show ?thesis
              by (simp add: analyze_oneOf_eq [OF sch noref noall one] id_def)
          qed (simp add: analyze_oneOf_eq [OF sch noref noall one])
        next
          case noone: None
          note plain = sch noref noall noone
          consider (arr) "get s ''type'' = Some (JStr ''array'') \<and> truthy_val (get s ''items'') \<noteq> None"
            | (obj) "\<not> (get s ''type'' = Some (JStr ''array'') \<and> truthy_val (get s ''items'') \<noteq> None)"
              "get s ''type'' = Some (JStr ''object'') \<or> truthy_val (get s ''properties'') \<noteq> None"
            | (prim) "\<not> (get s ''type'' = Some (JStr ''array'') \<and> truthy_val (get s ''items'') \<noteq> None)"
              "\<not> (get s ''type'' = Some (JStr ''object'') \<or> truthy_val (get s ''properties'') \<noteq> None)"
            by blast
          then show ?thesis
          proof cases
            case arr
            with "1.IH"(1) [OF plain arr] show ?thesis by (simp add: analyze_array_eq [OF plain])
          next
            case obj
            show ?thesis
            proof (rule analyze_object_shift [OF plain obj "1.prems"])
              fix kk assume "kk \<in> set (js_keys (props_of s))"
              from "1.IH"(2) [OF plain obj this] show
                "analyze spec (get (props_of s) kk) vis (Suc (d + k)) =
                 map_sum id (shift_depth k) (analyze spec (get (props_of s) kk) vis (Suc d))"
                by (simp add: id_def)
            next
              fix rs ap
              assume "seq_sum (map (\<lambda>kk. case analyze spec (get (props_of s) kk) vis (Suc d) of
                  Inl e \<Rightarrow> Inl e | Inr r \<Rightarrow> map_sum id (Pair r) (prop_guard (get (props_of s) kk) r))
                  (js_keys (props_of s))) = Inr rs"
                "truthy_val (get s ''additionalProperties'') = Some ap" "typeof_object ap"
              from "1.IH"(3) [OF plain obj this] show
                "analyze spec (Some ap) vis (Suc (d + k)) =
                 map_sum id (shift_depth k) (analyze spec (Some ap) vis (Suc d))"
                by (simp add: id_def)
            qed
          qed (simp add: analyze_prim_eq [OF plain])
        qed
      qed
    qed
  qed
qed

theorem analyze_shift_witness:
  "0 < (1::nat) \<and>
   analyze node_doc (Some (jref ''#/components/schemas/Node'')) [] (1 + 2) =
     Inr \<lparr>fieldCount = 2, maxDepth = 4\<rparr>"
proof -
  have h: "analyze node_doc (Some (jref ''#/components/schemas/Node'')) [] 1 =
      Inr \<lparr>fieldCount = 2, maxDepth = 2\<rparr>"
    unfolding node_doc_def jref_def jobject_def jtype_def by code_simp
  from analyze_shift [of 1 node_doc "Some (jref ''#/components/schemas/Node'')" "[]" 2] h
  show ?thesis by (simp add: shift_depth_def)
qed

text \<open>
  C9: the object rule.  For an object schema with distinct property names and no
  \<^verbatim>\<open>additionalProperties\<close>, the field count is the number of properties plus
  the nested counts of the structural ones (type object or array, a
  \<^verbatim>\<open>$ref\<close>, or a \<^verbatim>\<open>properties\<close> map), and the depth is the largest of the
  current depth (0 without properties) and the property depths, each property
  being analysed one level deeper.  The witness is spec scenario 2.
\<close>

theorem analyze_object:
  assumes "truthy_val (get s ''$ref'') = None" "truthy_val (get s ''allOf'') = None"
    and "truthy_val (get s ''oneOf'') = None" "truthy_val (get s ''anyOf'') = None"
    and "get s ''type'' \<noteq> Some (JStr ''array'')"
    and "get s ''properties'' = Some (JObj kvs)" "distinct (map fst kvs)"
    and "truthy_val (get s ''additionalProperties'') = None"
    and "list_all2 (\<lambda>(k, v) r. analyze spec (Some v) vis (Suc d) = Inr r) kvs rs"
  shows "analyze spec (Some s) vis d =
    Inr \<lparr>fieldCount = length kvs + sum_list (map2 (\<lambda>(k, v) r. if structural v then fieldCount r else 0) kvs rs),
         maxDepth = Max (insert (if kvs = [] then 0 else d) (set (map maxDepth rs)))\<rparr>"
proof -
  have t: "truthy_val (Some s) = Some s"
    using keyword_truthy [OF assms(6)] by (simp add: keyword_not_index)
  have p: "props_of s = JObj kvs" using assms(6) by (simp add: props_of_def)
  have or: "js_or (get s ''oneOf'') (get s ''anyOf'') = None"
    using assms(3,4) by (simp add: js_or_def)
  have notarr: "\<not> (get s ''type'' = Some (JStr ''array'') \<and> truthy_val (get s ''items'') \<noteq> None)"
    and isobj: "get s ''type'' = Some (JStr ''object'') \<or> truthy_val (get s ''properties'') \<noteq> None"
    using assms(5,6) by simp_all
  define F where "F ov = (case analyze spec ov vis (Suc d) of Inl e \<Rightarrow> Inl e
    | Inr r \<Rightarrow> map_sum id (Pair r) (prop_guard ov r))" for ov
  have steq: "map (\<lambda>k. case analyze spec (get (props_of s) k) vis (Suc d) of
        Inl e \<Rightarrow> Inl e | Inr r \<Rightarrow> map_sum id (Pair r) (prop_guard (get (props_of s) k) r))
      (js_keys (props_of s)) = map (\<lambda>kv. F (Some (snd kv))) kvs"
  proof -
    have "map (\<lambda>k. case analyze spec (get (props_of s) k) vis (Suc d) of
        Inl e \<Rightarrow> Inl e | Inr r \<Rightarrow> map_sum id (Pair r) (prop_guard (get (props_of s) k) r))
      (js_keys (props_of s)) = map F (map (map_of kvs) (map fst kvs))"
      unfolding p F_def by (simp add: comp_def cong: sum.case_cong)
    also have "\<dots> = map (\<lambda>kv. F (Some (snd kv))) kvs"
      by (simp only: map_of_keys [OF assms(7)]) (simp add: comp_def)
    finally show ?thesis .
  qed
  from object_props_run [OF assms(9), of F] obtain ps where
    ps: "seq_sum (map (\<lambda>kv. F (Some (snd kv))) kvs) = Inr ps" "map fst ps = rs"
      "sum_list (map (\<lambda>(r, add). if add then fieldCount r else 0) ps) =
       sum_list (map2 (\<lambda>(k, v) r. if structural v then fieldCount r else 0) kvs rs)"
    by (auto simp: F_def prop_guard_run)
  have "analyze spec (Some s) vis d = Inr (object_result d (length (js_keys (props_of s))) ps)"
    unfolding analyze_object_eq [OF t assms(1,2) or notarr isobj] steq ps(1) using assms(8) by simp
  moreover have "(\<lambda>x. maxDepth (fst x)) ` set ps = maxDepth ` set rs"
    unfolding ps(2) [symmetric] set_map image_image by (rule refl)
  ultimately show ?thesis using ps(3)
    by (simp add: p object_result_def fold_max_eq_Max comp_def)
qed

theorem analyze_object_witness:
  "analyze node_doc (Some (jobject [(''a'', jobject [(''x'', jtype ''string'')])])) [] 1 =
     Inr \<lparr>fieldCount = 2, maxDepth = 2\<rparr>"
proof -
  have "list_all2 (\<lambda>(k, v) r. analyze node_doc (Some v) [] (Suc 1) = Inr r)
      [(''a'', jobject [(''x'', jtype ''string'')])] [\<lparr>fieldCount = 1, maxDepth = 2\<rparr>]"
    unfolding node_doc_def jobject_def jtype_def by code_simp
  from analyze_object [OF _ _ _ _ _ _ _ _ this] show ?thesis
    by (simp add: jobject_def jtype_def structural_def)
qed

text \<open>
  C10: on a well-typed document (every truthy \<^verbatim>\<open>$ref\<close> a string, every
  truthy composition keyword iterable) the analyser never throws: it returns a
  result for every schema of the document, every visited list and every depth.
\<close>

theorem analyze_no_error:
  "well_typed spec \<Longrightarrow> pred_option well_typed schema \<Longrightarrow> \<exists>r. analyze spec schema vis d = Inr r"
  by (rule analyze_well_typed_ok)

theorem analyze_no_error_witness:
  "well_typed node_doc \<and> pred_option well_typed (Some (jref ''#/components/schemas/Node'')) \<and>
   (\<exists>r. analyze node_doc (Some (jref ''#/components/schemas/Node'')) [] 1 = Inr r)"
proof -
  have w: "well_typed node_doc"
    unfolding node_doc_def jobject_def jref_def jtype_def by code_simp
  have ws: "pred_option well_typed (Some (jref ''#/components/schemas/Node''))"
    by (simp add: jref_def)
  from w ws analyze_no_error [OF w ws, of "[]" 1] show ?thesis by simp
qed

text \<open>
  C11: the analyser is specified never to raise (spec section 4.3), but it
  does: every schema that reaches the \<^verbatim>\<open>$ref\<close> rule with a truthy
  non-string pointer (\<^verbatim>\<open>ref.replace\<close> is not a function), and every schema
  whose chosen composition keyword (\<^verbatim>\<open>allOf\<close>, else \<^verbatim>\<open>oneOf || anyOf\<close>)
  is truthy but not iterable (a number, a boolean, an object: \<^verbatim>\<open>for ... of\<close>)
  ends the analysis with a \<^verbatim>\<open>TypeError\<close>, whatever the document, visited
  list and depth; and a \<^verbatim>\<open>TypeError\<close> is the only exception it ever lets
  escape.
\<close>

theorem analyze_type_errors:
  "(analyze spec schema vis d = Inl e \<longrightarrow> e = TypeError) \<and>
   (truthy_val schema = Some s \<and> truthy_val (get s ''$ref'') = Some x \<and> (\<forall>q. x \<noteq> JStr q) \<longrightarrow>
      analyze spec schema vis d = Inl TypeError) \<and>
   (truthy_val schema = Some s \<and> truthy_val (get s ''$ref'') = None \<and>
    (truthy_val (get s ''allOf'') = Some a \<or>
     truthy_val (get s ''allOf'') = None \<and> js_or (get s ''oneOf'') (get s ''anyOf'') = Some a) \<and>
    isl (js_iter a) \<longrightarrow> analyze spec schema vis d = Inl TypeError)"
proof (intro conjI impI)
  show "analyze spec schema vis d = Inl e \<Longrightarrow> e = TypeError" by (rule analyze_Inl_TypeError)
next
  assume "truthy_val schema = Some s \<and> truthy_val (get s ''$ref'') = Some x \<and> (\<forall>q. x \<noteq> JStr q)"
  then show "analyze spec schema vis d = Inl TypeError" by (blast intro: analyze_ref_bad)
next
  assume h: "truthy_val schema = Some s \<and> truthy_val (get s ''$ref'') = None \<and>
    (truthy_val (get s ''allOf'') = Some a \<or>
     truthy_val (get s ''allOf'') = None \<and> js_or (get s ''oneOf'') (get s ''anyOf'') = Some a) \<and>
    isl (js_iter a)"
  then obtain e where e: "js_iter a = Inl e" by (cases "js_iter a") auto
  then have "e = TypeError" by (rule js_iter_Inl)
  with h e show "analyze spec schema vis d = Inl TypeError"
    by (auto simp: analyze_allOf_eq analyze_oneOf_eq)
qed

theorem analyze_type_errors_witness:
  "analyze node_doc (Some (JObj [(''oneOf'', JObj [])])) [] 1 = Inl TypeError \<and>
   analyze node_doc (Some (JObj [(''$ref'', JNum 1)])) [] 1 = Inl TypeError"
proof -
  have o: "truthy_val (Some (JObj [(''oneOf'', JObj [])])) = Some (JObj [(''oneOf'', JObj [])]) \<and>
      truthy_val (get (JObj [(''oneOf'', JObj [])]) ''$ref'') = None \<and>
      (truthy_val (get (JObj [(''oneOf'', JObj [])]) ''allOf'') = Some (JObj []) \<or>
       truthy_val (get (JObj [(''oneOf'', JObj [])]) ''allOf'') = None \<and>
       js_or (get (JObj [(''oneOf'', JObj [])]) ''oneOf'') (get (JObj [(''oneOf'', JObj [])]) ''anyOf'') = Some (JObj [])) \<and>
      isl (js_iter (JObj []))"
    by (simp add: js_or_def)
  have r: "truthy_val (Some (JObj [(''$ref'', JNum 1)])) = Some (JObj [(''$ref'', JNum 1)]) \<and>
      truthy_val (get (JObj [(''$ref'', JNum 1)]) ''$ref'') = Some (JNum 1) \<and> (\<forall>q. JNum 1 \<noteq> JStr q)"
    by simp
  from o r analyze_type_errors [of node_doc "Some (JObj [(''oneOf'', JObj [])])" "[]" 1 _ "JObj [(''oneOf'', JObj [])]" _ "JObj []"]
    analyze_type_errors [of node_doc "Some (JObj [(''$ref'', JNum 1)])" "[]" 1 _ "JObj [(''$ref'', JNum 1)]" "JNum 1"]
  show ?thesis by blast
qed

text \<open>
  An \<^verbatim>\<open>allOf\<close> whose only branch is a bare type contributes no field but
  reports the current depth: contrary to the invariant of spec section 3,
  \<^verbatim>\<open>maxDepth\<close> is not 0 although the schema has no nested structure.
\<close>

lemma analyze_allOf_no_fields:
  "analyze spec (Some (JObj [(''allOf'', JArr [jtype t])])) vis d = Inr \<lparr>fieldCount = 0, maxDepth = d\<rparr>"
  by (subst analyze_allOf_eq [of _ "JObj [(''allOf'', JArr [jtype t])]" "JArr [jtype t]"])
    (simp_all add: analyze_type_only all_of_result_def)

text \<open>
  C30: the structural guard of line 98 has the effect spec section 9 describes
  (trusting the nested count) for every property schema that is not
  composition-only: when the property has no truthy \<^verbatim>\<open>allOf\<close>,
  \<^verbatim>\<open>oneOf\<close> or \<^verbatim>\<open>anyOf\<close>, the guard adds the nested count exactly when it
  is positive, so a guard-free loop gives the same totals.
\<close>

theorem prop_guard_trusts_result:
  assumes run: "analyze spec (Some p) vis d = Inr r"
    and noall: "truthy_val (get p ''allOf'') = None"
    and noone: "js_or (get p ''oneOf'') (get p ''anyOf'') = None"
  shows "prop_guard (Some p) r = Inr (0 < fieldCount r)"
proof (cases "truthy p \<and> \<not> structural p")
  case True
  then have "analyze spec (Some p) vis d = Inr no_analysis"
    using noall noone
    by (intro analyze_prim_eq [of _ p]) (auto simp: structural_def truthy_val_None)
  with run show ?thesis by simp
next
  case False
  then consider "\<not> truthy p" | "structural p" by blast
  then show ?thesis
  proof cases
    case 1
    with run show ?thesis by (simp add: analyze_absent_eq)
  qed (cases "p = JNull", auto simp: prop_guard_def structural_def)
qed

theorem prop_guard_trusts_result_witness:
  "analyze node_doc (Some (jobject [(''x'', jtype ''string'')])) [] 2 = Inr \<lparr>fieldCount = 1, maxDepth = 2\<rparr> \<and>
   truthy_val (get (jobject [(''x'', jtype ''string'')]) ''allOf'') = None \<and>
   js_or (get (jobject [(''x'', jtype ''string'')]) ''oneOf'') (get (jobject [(''x'', jtype ''string'')]) ''anyOf'') = None \<and>
   prop_guard (Some (jobject [(''x'', jtype ''string'')])) \<lparr>fieldCount = 1, maxDepth = 2\<rparr> = Inr True"
proof -
  have run: "analyze node_doc (Some (jobject [(''x'', jtype ''string'')])) [] 2 = Inr \<lparr>fieldCount = 1, maxDepth = 2\<rparr>"
    by (rule analyze_leaf_object)
  have h: "truthy_val (get (jobject [(''x'', jtype ''string'')]) ''allOf'') = None"
    "js_or (get (jobject [(''x'', jtype ''string'')]) ''oneOf'') (get (jobject [(''x'', jtype ''string'')]) ''anyOf'') = None"
    by (simp_all add: jobject_def js_or_def)
  from prop_guard_trusts_result [OF run h] run h show ?thesis by simp
qed

text \<open>
  For a composition-only property the guard is not equivalent to trusting the
  nested count, against spec section 9: the property \<open>a\<close> of
  \<open>composed_doc\<close> analyses to one nested field, but the object reports only
  its own property, one field, where the guard-free loop gives two.
\<close>

lemma analyze_composition_property:
  "analyze spec (Some composed_doc) vis 1 = Inr \<lparr>fieldCount = 1, maxDepth = 2\<rparr> \<and>
   analyze spec (Some (JObj [(''allOf'', JArr [jobject [(''x'', jtype ''string'')]])])) vis 2 =
     Inr \<lparr>fieldCount = 1, maxDepth = 2\<rparr>"
proof -
  define a where "a = JObj [(''allOf'', JArr [jobject [(''x'', jtype ''string'')]])]"
  have inner: "analyze spec (Some a) vis 2 = Inr \<lparr>fieldCount = 1, maxDepth = 2\<rparr>"
    unfolding a_def
    by (subst analyze_allOf_eq [of _ "JObj [(''allOf'', JArr [jobject [(''x'', jtype ''string'')]])]"
        "JArr [jobject [(''x'', jtype ''string'')]]"]) (simp_all add: analyze_leaf_object all_of_result_def)
  have ns: "\<not> structural a" by (simp add: a_def structural_def)
  have "props_of composed_doc = JObj [(''a'', a)]"
    by (simp add: props_of_def composed_doc_def jobject_def a_def)
  moreover have "get composed_doc ''additionalProperties'' = None" "truthy_val (get composed_doc ''$ref'') = None"
      "truthy_val (get composed_doc ''allOf'') = None" "js_or (get composed_doc ''oneOf'') (get composed_doc ''anyOf'') = None"
      "get composed_doc ''type'' = Some (JStr ''object'')" "truthy composed_doc" "a \<noteq> JNull"
    by (simp_all add: composed_doc_def jobject_def js_or_def a_def)
  moreover have "analyze spec (Some a) vis (Suc (Suc 0)) = Inr \<lparr>fieldCount = 1, maxDepth = 2\<rparr>"
    using inner by (simp add: numeral_2_eq_2)
  ultimately have "analyze spec (Some composed_doc) vis 1 = Inr \<lparr>fieldCount = 1, maxDepth = 2\<rparr>"
    using ns by (subst analyze_object_eq [of _ composed_doc]) (simp_all add: object_result_def prop_guard_def)
  with inner show ?thesis by (simp add: a_def)
qed

end
