(* ===== verification/Extractor.thy ===== *)
theory Extractor
  imports Analyzer "HOL-Library.List_Lexorder" "HOL-Library.Char_ord"
begin

text \<open>
  The operation extractor of \<^verbatim>\<open>src/src/lib/openapi-parser.ts\<close>:
  \<^verbatim>\<open>getRequestSchema\<close> (lines 118--137), \<^verbatim>\<open>getResponseSchema\<close>
  (lines 139--163) and the loop of \<^verbatim>\<open>parseOpenAPI\<close> over \<^verbatim>\<open>paths\<close> and the
  seven methods that builds one \<^verbatim>\<open>EndpointAnalysis\<close> per operation
  (lines 186--212).  Lookups that can throw (\<^verbatim>\<open>parameters.find\<close> on a
  non-array, \<^verbatim>\<open>p.in\<close> on a \<^verbatim>\<open>null\<close> parameter) return \<open>Inl TypeError\<close>.
\<close>

section \<open>Media types\<close>

text \<open>
  \<^verbatim>\<open>const mediaType = content['application/json'] || content['*/*'] ||
  Object.values(content)[0]; return mediaType?.schema;\<close> (lines 123--124 and
  152--153).  The first \<^emph>\<open>truthy media object\<close> is chosen, whether or not it has
  a schema.
\<close>

definition media_type :: "json \<Rightarrow> json option" where
  "media_type content =
     (case truthy_val (get content ''application/json'') of
        Some m \<Rightarrow> Some m
      | None \<Rightarrow>
        (case truthy_val (get content ''*/*'') of
           Some m \<Rightarrow> Some m
         | None \<Rightarrow> (case js_values content of [] \<Rightarrow> None | v # _ \<Rightarrow> Some v)))"

definition media_schema :: "json \<Rightarrow> json option" where
  "media_schema content = (case media_type content of None \<Rightarrow> None | Some m \<Rightarrow> get m ''schema'')"

section \<open>Request schema\<close>

text \<open>\<^verbatim>\<open>operation.parameters.find((p) => p.in === 'body')\<close> on an array.\<close>

fun find_body :: "json list \<Rightarrow> error + json option" where
  "find_body [] = Inr None"
| "find_body (p # ps) =
     (case read_prop (Some p) ''in'' of
        Inl e \<Rightarrow> Inl e
      | Inr v \<Rightarrow> if v = Some (JStr ''body'') then Inr (Some p) else find_body ps)"

definition body_param_schema :: "json \<Rightarrow> error + json option" where
  "body_param_schema op =
     (case truthy_val (get op ''parameters'') of
        None \<Rightarrow> Inr None
      | Some (JArr ps) \<Rightarrow>
          (case find_body ps of
             Inl e \<Rightarrow> Inl e
           | Inr None \<Rightarrow> Inr None
           | Inr (Some p) \<Rightarrow> if truthy p then Inr (get p ''schema'') else Inr None)
      | Some _ \<Rightarrow> Inl TypeError)"

definition get_request_schema :: "json \<Rightarrow> error + json option" where
  "get_request_schema op =
     (case truthy_val (get op ''requestBody'') of
        Some rb \<Rightarrow>
          (case truthy_val (get rb ''content'') of
             Some c \<Rightarrow> Inr (media_schema c)
           | None \<Rightarrow> body_param_schema op)
      | None \<Rightarrow> body_param_schema op)"

section \<open>Response schema\<close>

text \<open>\<^verbatim>\<open>/^2\d{2}$/.test(code)\<close>: exactly three characters, a \<^verbatim>\<open>2\<close> and two ASCII digits.\<close>

fun success_code :: "string \<Rightarrow> bool" where
  "success_code [a, b, c] = (a = CHR ''2'' \<and> is_digit b \<and> is_digit c)"
| "success_code _ = False"

text \<open>The loop over the sorted success codes (lines 147--160).\<close>

fun first_response :: "json \<Rightarrow> string list \<Rightarrow> json option" where
  "first_response rs [] = None"
| "first_response rs (c # cs) =
     (case truthy_val (get rs c) of
        None \<Rightarrow> first_response rs cs
      | Some r \<Rightarrow>
          (case truthy_val (get r ''content'') of
             Some ct \<Rightarrow> media_schema ct
           | None \<Rightarrow>
               (case truthy_val (get r ''schema'') of
                  Some sc \<Rightarrow> Some sc
                | None \<Rightarrow> first_response rs cs)))"

definition success_codes :: "json \<Rightarrow> string list" where
  "success_codes rs = sort (filter success_code (js_keys rs))"

definition get_response_schema :: "json \<Rightarrow> json option" where
  "get_response_schema op =
     (case truthy_val (get op ''responses'') of
        None \<Rightarrow> None
      | Some rs \<Rightarrow> first_response rs (success_codes rs))"

section \<open>Endpoints\<close>

datatype http_method = GET | POST | PUT | PATCH | DELETE | OPTIONS | HEAD

text \<open>\<^verbatim>\<open>const methods = ['get', 'post', 'put', 'patch', 'delete', 'options', 'head']\<close>\<close>

definition methods :: "http_method list" where
  "methods = [GET, POST, PUT, PATCH, DELETE, OPTIONS, HEAD]"

text \<open>The key of the path item (\<^verbatim>\<open>method\<close>) and the reported name (\<^verbatim>\<open>method.toUpperCase()\<close>).\<close>

fun method_key :: "http_method \<Rightarrow> string" where
  "method_key GET = ''get''"
| "method_key POST = ''post''"
| "method_key PUT = ''put''"
| "method_key PATCH = ''patch''"
| "method_key DELETE = ''delete''"
| "method_key OPTIONS = ''options''"
| "method_key HEAD = ''head''"

fun method_name :: "http_method \<Rightarrow> string" where
  "method_name GET = ''GET''"
| "method_name POST = ''POST''"
| "method_name PUT = ''PUT''"
| "method_name PATCH = ''PATCH''"
| "method_name DELETE = ''DELETE''"
| "method_name OPTIONS = ''OPTIONS''"
| "method_name HEAD = ''HEAD''"

text \<open>\<^verbatim>\<open>interface EndpointAnalysis\<close> (lines 8--15).\<close>

record endpoint =
  ep_path :: string
  ep_method :: http_method
  ep_operationId :: "json option"
  ep_summary :: "json option"
  ep_request :: analysis
  ep_response :: analysis

text \<open>
  The body of the inner loop for one operation (lines 197--210): the request
  lookup, the response lookup, then \<^verbatim>\<open>analyzeSchema(spec, schema)\<close> with a
  fresh visited set and depth 1 for each.
\<close>

definition endpoint_of :: "json \<Rightarrow> string \<Rightarrow> http_method \<Rightarrow> json \<Rightarrow> error + endpoint" where
  "endpoint_of spec path m op =
     (case get_request_schema op of
        Inl e \<Rightarrow> Inl e
      | Inr rq \<Rightarrow>
          (case analyze spec rq [] 1 of
             Inl e \<Rightarrow> Inl e
           | Inr ra \<Rightarrow>
               (case analyze spec (get_response_schema op) [] 1 of
                  Inl e \<Rightarrow> Inl e
                | Inr sa \<Rightarrow>
                    Inr \<lparr>ep_path = path, ep_method = m, ep_operationId = get op ''operationId'',
                         ep_summary = get op ''summary'', ep_request = ra, ep_response = sa\<rparr>)))"

text \<open>The operations a path item declares, in the order of \<open>methods\<close> (\<^verbatim>\<open>if (!operation) continue\<close>).\<close>

definition operations :: "json \<Rightarrow> (http_method \<times> json) list" where
  "operations item =
     List.map_filter (\<lambda>m. map_option (Pair m) (truthy_val (get item (method_key m)))) methods"

definition item_endpoints :: "json \<Rightarrow> string \<Rightarrow> json \<Rightarrow> error + endpoint list" where
  "item_endpoints spec path item =
     (if \<not> truthy item \<or> \<not> typeof_object item then Inr []
      else seq_sum (map (\<lambda>(m, op). endpoint_of spec path m op) (operations item)))"

text \<open>\<^verbatim>\<open>for (const [path, pathItem] of Object.entries(paths))\<close>\<close>

definition extract_endpoints :: "json \<Rightarrow> json \<Rightarrow> error + endpoint list" where
  "extract_endpoints spec paths =
     map_sum id concat
       (seq_sum (map (\<lambda>(path, item). item_endpoints spec path item) (js_entries paths)))"

section \<open>Documents on which extraction cannot throw\<close>

text \<open>
  An operation whose \<^verbatim>\<open>parameters\<close>, when truthy, is an array without a
  \<^verbatim>\<open>null\<close> element: \<^verbatim>\<open>parameters.find(p => p.in === 'body')\<close> then
  cannot throw.  The operations the extraction loop visits, with their path, in
  the order of the loop.
\<close>

definition params_ok :: "json \<Rightarrow> bool" where
  "params_ok op =
     (case truthy_val (get op ''parameters'') of
        None \<Rightarrow> True
      | Some (JArr ps) \<Rightarrow> JNull \<notin> set ps
      | Some _ \<Rightarrow> False)"

definition declared_operations :: "json \<Rightarrow> (string \<times> http_method \<times> json) list" where
  "declared_operations paths =
     concat (map (\<lambda>(path, item). if truthy item \<and> typeof_object item
                                 then map (Pair path) (operations item) else [])
                 (js_entries paths))"

section \<open>Lemmas\<close>

lemma find_body_skip:
  "\<forall>q\<in>set qs. q \<noteq> JNull \<and> get q ''in'' \<noteq> Some (JStr ''body'') \<Longrightarrow> find_body (qs @ ys) = find_body ys"
  by (induction qs) (auto simp: read_prop_def split: json.splits option.splits)

lemma endpoint_of_key:
  "endpoint_of spec path m op = Inr e \<Longrightarrow> ep_path e = path \<and> ep_method e = m"
  by (auto simp: endpoint_of_def split: sum.splits)

lemma item_endpoints_keys:
  assumes "item_endpoints spec path item = Inr es"
  shows "map (\<lambda>e. (ep_path e, ep_method e)) es =
    (if truthy item \<and> typeof_object item then map (\<lambda>(m, op). (path, m)) (operations item) else [])"
proof (cases "truthy item \<and> typeof_object item")
  case True
  with assms have "list_all2 (\<lambda>x y. (case x of (m, op) \<Rightarrow> endpoint_of spec path m op) = Inr y)
      (operations item) es"
    by (simp add: item_endpoints_def seq_sum_map_Inr_iff)
  then have "map (\<lambda>e. (ep_path e, ep_method e)) es = map (\<lambda>(m, op). (path, m)) (operations item)"
    by (rule list_all2_Inr_map) (auto dest: endpoint_of_key)
  with True show ?thesis by simp
qed (use assms in \<open>auto simp: item_endpoints_def\<close>)

text \<open>
  On a well-typed document whose parameter lists are arrays without
  \<^verbatim>\<open>null\<close>, the request and response lookups give well-typed schemas and
  the extraction loop returns one endpoint per declared operation.
\<close>

lemma well_typed_values: "well_typed v \<Longrightarrow> x \<in> set (js_values v) \<Longrightarrow> well_typed x"
  by (cases v) auto

lemma well_typed_entries: "well_typed v \<Longrightarrow> (k, x) \<in> set (js_entries v) \<Longrightarrow> well_typed x"
  by (cases v) (auto dest!: set_zip_rightD)

lemma well_typed_get_opt: "well_typed j \<Longrightarrow> pred_option well_typed (get j k)"
  by (cases "get j k") (auto dest: well_typed_get)

lemma well_typed_media_schema: "well_typed c \<Longrightarrow> pred_option well_typed (media_schema c)"
proof -
  assume c: "well_typed c"
  have "pred_option well_typed (media_type c)"
    using well_typed_values [OF c] unfolding media_type_def
    by (auto split: option.splits list.splits dest: well_typed_get [OF c])
  then show ?thesis
    unfolding media_schema_def by (auto split: option.splits intro: well_typed_get_opt)
qed

lemma find_body_no_null: "JNull \<notin> set ps \<Longrightarrow> \<exists>b. find_body ps = Inr b"
  by (induction ps) (auto simp: read_prop_def split: json.splits)

lemma find_body_mem: "find_body ps = Inr (Some p) \<Longrightarrow> p \<in> set ps"
  by (induction ps) (auto simp: read_prop_def split: sum.splits if_splits)

lemma body_param_schema_ok:
  assumes "well_typed op" "params_ok op"
  shows "\<exists>rq. body_param_schema op = Inr rq \<and> pred_option well_typed rq"
proof (cases "truthy_val (get op ''parameters'')")
  case (Some x)
  with assms(2) obtain ps where ps: "x = JArr ps" "JNull \<notin> set ps"
    by (cases x) (auto simp: params_ok_def)
  with Some assms(1) have wps: "\<forall>p\<in>set ps. well_typed p" by (auto dest: well_typed_get)
  obtain b where b: "find_body ps = Inr b" using find_body_no_null [OF ps(2)] by blast
  have "pred_option well_typed (case b of None \<Rightarrow> None | Some p \<Rightarrow> if truthy p then get p ''schema'' else None)"
  proof (cases b)
    case (Some p)
    with b wps have "well_typed p" by (auto dest: find_body_mem)
    then show ?thesis using Some by (simp add: well_typed_get_opt)
  qed simp
  with Some ps b show ?thesis
    by (cases b) (simp_all add: body_param_schema_def split: if_splits)
qed (simp add: body_param_schema_def)

lemma get_request_schema_ok:
  assumes "well_typed op" "params_ok op"
  shows "\<exists>rq. get_request_schema op = Inr rq \<and> pred_option well_typed rq"
proof (cases "truthy_val (get op ''requestBody'')")
  case (Some rb)
  with assms(1) have "well_typed rb" by (auto dest: well_typed_get)
  then show ?thesis
    using Some body_param_schema_ok [OF assms] unfolding get_request_schema_def
    by (cases "truthy_val (get rb ''content'')") (auto dest: well_typed_get intro: well_typed_media_schema)
qed (simp add: get_request_schema_def body_param_schema_ok [OF assms])

lemma first_response_wt: "well_typed rs \<Longrightarrow> pred_option well_typed (first_response rs cs)"
proof (induction rs cs rule: first_response.induct)
  case (2 rs c cs)
  show ?case
  proof (cases "truthy_val (get rs c)")
    case (Some r)
    with "2.prems" have wr: "well_typed r" by (auto dest: well_typed_get)
    have "pred_option well_typed (get r ''content'')" "pred_option well_typed (get r ''schema'')"
      using wr by (simp_all add: well_typed_get_opt)
    with Some "2.IH" "2.prems" show ?thesis
      by (auto split: option.splits intro: well_typed_media_schema)
  qed (use "2.IH" "2.prems" in simp)
qed simp

lemma get_response_schema_wt: "well_typed op \<Longrightarrow> pred_option well_typed (get_response_schema op)"
  unfolding get_response_schema_def
  by (auto split: option.splits dest: well_typed_get intro: first_response_wt)

lemma endpoint_of_ok:
  assumes "well_typed spec" "well_typed op" "params_ok op"
  shows "\<exists>e. endpoint_of spec path m op = Inr e"
proof -
  obtain rq where rq: "get_request_schema op = Inr rq" "pred_option well_typed rq"
    using get_request_schema_ok [OF assms(2,3)] by blast
  obtain ra where ra: "analyze spec rq [] 1 = Inr ra"
    using analyze_well_typed_ok [OF assms(1) rq(2)] by blast
  obtain sa where "analyze spec (get_response_schema op) [] 1 = Inr sa"
    using analyze_well_typed_ok [OF assms(1) get_response_schema_wt [OF assms(2)]] by blast
  with rq ra show ?thesis by (simp add: endpoint_of_def)
qed

lemma seq_sum_concat_length:
  "\<forall>x\<in>set xs. \<exists>ys. f x = Inr ys \<and> length ys = g x \<Longrightarrow>
   \<exists>yss. seq_sum (map f xs) = Inr yss \<and> length (concat yss) = sum_list (map g xs)"
  by (induction xs) auto

lemma operations_get: "(m, op) \<in> set (operations item) \<Longrightarrow> get item (method_key m) = Some op"
  by (auto simp: operations_def List.map_filter_def)

lemma item_endpoints_ok:
  assumes "well_typed spec" "well_typed item" "\<forall>(m, op) \<in> set (operations item). params_ok op"
  shows "\<exists>es. item_endpoints spec path item = Inr es \<and>
           length es = length (if truthy item \<and> typeof_object item then operations item else [])"
proof -
  have "\<forall>(m, op) \<in> set (operations item). \<exists>e. endpoint_of spec path m op = Inr e"
    using assms by (auto intro!: endpoint_of_ok dest: operations_get well_typed_get)
  then obtain es where "seq_sum (map (\<lambda>(m, op). endpoint_of spec path m op) (operations item)) = Inr es"
    using seq_sum_map_ok [of "operations item" "\<lambda>(m, op). endpoint_of spec path m op"] by fastforce
  then show ?thesis by (auto simp: item_endpoints_def dest: seq_sum_map_length)
qed

lemma declared_operations_item:
  "(path, item) \<in> set (js_entries paths) \<Longrightarrow> (m, op) \<in> set (operations item) \<Longrightarrow>
   truthy item \<Longrightarrow> typeof_object item \<Longrightarrow> (path, m, op) \<in> set (declared_operations paths)"
  unfolding declared_operations_def by force

lemma extract_endpoints_ok:
  assumes "well_typed spec" "well_typed paths"
    and ok: "list_all (\<lambda>(path, m, op). params_ok op) (declared_operations paths)"
  shows "\<exists>eps. extract_endpoints spec paths = Inr eps \<and> length eps = length (declared_operations paths)"
proof -
  have "\<exists>es. item_endpoints spec path item = Inr es \<and>
      length es = length (if truthy item \<and> typeof_object item then operations item else [])"
    if pi: "(path, item) \<in> set (js_entries paths)" for path item
  proof (cases "truthy item \<and> typeof_object item")
    case True
    have "\<forall>(m, op) \<in> set (operations item). params_ok op"
    proof (intro ballI, clarify)
      fix m op
      assume "(m, op) \<in> set (operations item)"
      from declared_operations_item [OF pi this conjunct1 [OF True] conjunct2 [OF True]] ok
      show "params_ok op" by (auto simp: list_all_iff)
    qed
    from item_endpoints_ok [OF assms(1) well_typed_entries [OF assms(2) pi] this] show ?thesis .
  qed (auto simp: item_endpoints_def)
  then have "\<forall>x \<in> set (js_entries paths). \<exists>es. (\<lambda>(path, item). item_endpoints spec path item) x = Inr es \<and>
      length es = (\<lambda>(path, item). length (if truthy item \<and> typeof_object item then operations item else [])) x"
    by auto
  from seq_sum_concat_length [OF this] show ?thesis
    unfolding extract_endpoints_def declared_operations_def
    by (auto simp: length_concat comp_def case_prod_unfold if_distrib [where f = length] cong: if_cong)
qed

section \<open>Properties of the extractor\<close>

text \<open>
  C14: the request schema of an operation with a truthy \<^verbatim>\<open>requestBody.content\<close>
  is read from its truthy \<^verbatim>\<open>application/json\<close> media object, whatever the other
  media types hold.  The witness is a divergence from the spec: a JSON media
  object without a schema hides the \<^verbatim>\<open>*/*\<close> schema, while spec section 4.4
  says to fall back to \<^verbatim>\<open>content["*/*"].schema\<close>.
\<close>

theorem get_request_schema_json:
  assumes "truthy_val (get op ''requestBody'') = Some rb" "truthy_val (get rb ''content'') = Some c"
    and "truthy_val (get c ''application/json'') = Some m"
  shows "get_request_schema op = Inr (get m ''schema'')"
  using assms by (simp add: get_request_schema_def media_schema_def media_type_def)

theorem get_request_schema_json_witness:
  "get_request_schema (JObj [(''requestBody'', JObj [(''content'', JObj [
       (''application/json'', JObj [(''example'', JStr ''x'')]),
       (''*/*'', JObj [(''schema'', JObj [(''type'', JStr ''object'')])])])])]) = Inr None"
proof -
  let ?m = "JObj [(''example'', JStr ''x'')]"
  let ?c = "JObj [(''application/json'', ?m), (''*/*'', JObj [(''schema'', JObj [(''type'', JStr ''object'')])])]"
  from get_request_schema_json [of "JObj [(''requestBody'', JObj [(''content'', ?c)])]"
      "JObj [(''content'', ?c)]" ?c ?m]
  show ?thesis by simp
qed

text \<open>
  C15: with no truthy \<^verbatim>\<open>requestBody\<close>, the request schema is the \<^verbatim>\<open>schema\<close>
  of the first parameter whose \<^verbatim>\<open>in\<close> is \<^verbatim>\<open>"body"\<close> (Swagger 2 style).
\<close>

theorem get_request_schema_body_param:
  assumes "truthy_val (get op ''requestBody'') = None"
    and "get op ''parameters'' = Some (JArr (qs @ p # rest))"
    and "\<forall>q\<in>set qs. q \<noteq> JNull \<and> get q ''in'' \<noteq> Some (JStr ''body'')"
    and "get p ''in'' = Some (JStr ''body'')"
  shows "get_request_schema op = Inr (get p ''schema'')"
proof -
  from get_keyword_obj [OF assms(4)] obtain kvs where p: "p = JObj kvs"
    by (auto simp: keyword_not_index)
  have "find_body (qs @ p # rest) = Inr (Some p)"
    using find_body_skip [OF assms(3)] assms(4) by (simp add: p read_prop_def)
  with assms(1,2) show ?thesis
    by (simp add: get_request_schema_def body_param_schema_def p)
qed

theorem get_request_schema_body_param_witness:
  "get_request_schema (JObj [(''parameters'', JArr [JObj [(''in'', JStr ''query'')],
      JObj [(''in'', JStr ''body''), (''schema'', JNum 1)]])]) = Inr (Some (JNum 1))"
  using get_request_schema_body_param [of "JObj [(''parameters'', JArr [JObj [(''in'', JStr ''query'')],
      JObj [(''in'', JStr ''body''), (''schema'', JNum 1)]])]" "[JObj [(''in'', JStr ''query'')]]"]
  by simp

text \<open>
  C16: a \<^verbatim>\<open>parameters\<close> field that is an object rather than an array makes
  \<^verbatim>\<open>parameters.find\<close> throw a \<^verbatim>\<open>TypeError\<close>: the request lookup, and with it
  the whole analysis, fails instead of degrading to a best-effort result.
\<close>

theorem get_request_schema_parameters_object:
  assumes "truthy_val (get op ''requestBody'') = None" "get op ''parameters'' = Some (JObj kvs)"
  shows "get_request_schema op = Inl TypeError"
  using assms by (simp add: get_request_schema_def body_param_schema_def)

theorem get_request_schema_parameters_object_witness:
  "get_request_schema (JObj [(''parameters'', JObj [(''body'', JObj [(''in'', JStr ''body'')])])]) = Inl TypeError"
  by (rule get_request_schema_parameters_object) simp_all

text \<open>
  C17: the response lookup skips, in ascending order, every success code whose
  response is falsy or has neither truthy \<^verbatim>\<open>content\<close> nor a truthy
  \<^verbatim>\<open>schema\<close>, and stops at the first one whose response has truthy
  \<^verbatim>\<open>content\<close>, whether or not that content yields a schema.  The witness
  diverges from spec section 4.4 ("the first whose entry yields a schema"): the
  \<^verbatim>\<open>200\<close> response is skipped, the \<^verbatim>\<open>201\<close> content has no schema, so the
  schema of \<^verbatim>\<open>202\<close> is never looked at.
\<close>

theorem get_response_schema_first:
  assumes "truthy_val (get op ''responses'') = Some rs" "success_codes rs = cs1 @ c # cs2"
    and "\<forall>c'\<in>set cs1. \<forall>r'. truthy_val (get rs c') = Some r' \<longrightarrow>
           truthy_val (get r' ''content'') = None \<and> truthy_val (get r' ''schema'') = None"
    and "truthy_val (get rs c) = Some r" "truthy_val (get r ''content'') = Some ct"
  shows "get_response_schema op = media_schema ct"
proof -
  have "first_response rs (cs1 @ c # cs2) = first_response rs (c # cs2)"
    using assms(3) by (induction cs1) (auto split: option.splits)
  with assms show ?thesis by (simp add: get_response_schema_def)
qed

theorem get_response_schema_first_witness:
  "get_response_schema (JObj [(''responses'', JObj [
       (''202'', JObj [(''schema'', JObj [(''type'', JStr ''object'')])]),
       (''201'', JObj [(''content'', JObj [(''application/json'', JObj [(''example'', JStr ''x'')])])]),
       (''200'', JObj [(''description'', JStr ''none'')])])]) = None"
proof -
  let ?ct = "JObj [(''application/json'', JObj [(''example'', JStr ''x'')])]"
  let ?rs = "JObj [
       (''202'', JObj [(''schema'', JObj [(''type'', JStr ''object'')])]),
       (''201'', JObj [(''content'', ?ct)]),
       (''200'', JObj [(''description'', JStr ''none'')])]"
  have sc: "success_codes ?rs = [''200''] @ ''201'' # [''202'']"
    unfolding success_codes_def by code_simp
  have skip: "\<forall>c'\<in>set [''200'']. \<forall>r'. truthy_val (get ?rs c') = Some r' \<longrightarrow>
      truthy_val (get r' ''content'') = None \<and> truthy_val (get r' ''schema'') = None"
    by simp
  from get_response_schema_first [OF _ sc skip, of "JObj [(''responses'', ?rs)]" "JObj [(''content'', ?ct)]" ?ct]
  show ?thesis by (simp add: media_schema_def media_type_def)
qed

text \<open>
  C18: the status-code filter \<^verbatim>\<open>/^2\d{2}$/\<close> accepts exactly the decimal
  spellings of the numbers 200 to 299.
\<close>

theorem success_code_iff:
  "success_code c \<longleftrightarrow> (\<exists>n. 200 \<le> n \<and> n \<le> 299 \<and> c = show_nat n)"
proof -
  have two: "char_of (50::nat) = CHR ''2''" by code_simp
  show ?thesis
  proof
  assume "success_code c"
  then obtain b e where c: "c = [CHR ''2'', b, e]" and d: "is_digit b" "is_digit e"
    by (cases c rule: success_code.cases) auto
  have v: "digit_val b < 10" "digit_val e < 10"
    using d by (auto simp: is_digit_def digit_val_def)
  define n where "n = digit_val e + 10 * (20 + digit_val b)"
  have n10: "n div 10 = 20 + digit_val b"
    unfolding n_def using v by (subst div_mult_self2) simp_all
  have n1: "n mod 10 = digit_val e"
    unfolding n_def using v by (subst mod_mult_self2) simp
  have "(20 + digit_val b) mod 10 = digit_val b"
    using mod_mult_self2 [of "digit_val b" 10 2] v(1) by (simp add: add.commute)
  note n10 = n10 n1 this
  have a: "n div 100 = 2" "n div 10 mod 10 = digit_val b" "n mod 10 = digit_val e"
    using v n10 by (simp_all add: div_mult2_eq [symmetric, of n 10 10, simplified])
  have "show_nat n = [char_of (48 + (2::nat)), char_of (48 + digit_val b), char_of (48 + digit_val e)]"
    using v a by (simp add: show_nat_3 n_def)
  then have "c = show_nat n" by (simp add: c char_of_digit d two)
  moreover have "200 \<le> n \<and> n \<le> 299" using v by (simp add: n_def)
  ultimately show "\<exists>n. 200 \<le> n \<and> n \<le> 299 \<and> c = show_nat n" by blast
next
  assume "\<exists>n. 200 \<le> n \<and> n \<le> 299 \<and> c = show_nat n"
  then obtain n where n: "200 \<le> n" "n \<le> 299" and c: "c = show_nat n" by blast
  have "n div 100 = 2" using n by simp
  moreover have "n div 10 mod 10 \<le> 9" "n mod 10 \<le> 9"
    using mod_less_divisor [of 10 "n div 10"] mod_less_divisor [of 10 n] by linarith+
  ultimately
  show "success_code c"
    using n two by (simp add: c show_nat_3 is_digit_def of_char_digit)
  qed
qed

text \<open>
  C19: the endpoints come out in document order of \<^verbatim>\<open>paths\<close> and, within a
  path item that is a truthy object, in the order of the seven methods, one per
  truthy operation; other path items contribute nothing.
\<close>

theorem extract_endpoints_order:
  assumes "extract_endpoints spec paths = Inr eps"
  shows "map (\<lambda>e. (ep_path e, ep_method e)) eps =
    concat (map (\<lambda>(path, item). if truthy item \<and> typeof_object item
                                 then map (\<lambda>(m, op). (path, m)) (operations item) else [])
             (js_entries paths))"
proof -
  from assms obtain ess where
    ess: "seq_sum (map (\<lambda>(path, item). item_endpoints spec path item) (js_entries paths)) = Inr ess"
    and eps: "eps = concat ess"
    by (auto simp: extract_endpoints_def)
  from ess have "list_all2 (\<lambda>x y. (case x of (path, item) \<Rightarrow> item_endpoints spec path item) = Inr y)
      (js_entries paths) ess"
    by (simp add: seq_sum_map_Inr_iff)
  then have "map (map (\<lambda>e. (ep_path e, ep_method e))) ess =
      map (\<lambda>(path, item). if truthy item \<and> typeof_object item
                          then map (\<lambda>(m, op). (path, m)) (operations item) else []) (js_entries paths)"
    by (rule list_all2_Inr_map) (auto dest: item_endpoints_keys)
  then show ?thesis by (simp add: eps map_concat)
qed

theorem extract_endpoints_order_witness:
  "extract_endpoints (JObj []) (JObj [(''/items'', JObj [(''get'', JObj []), (''summary'', JStr ''x''), (''post'', JObj [])])]) =
     Inr [\<lparr>ep_path = ''/items'', ep_method = GET, ep_operationId = None, ep_summary = None,
           ep_request = no_analysis, ep_response = no_analysis\<rparr>,
          \<lparr>ep_path = ''/items'', ep_method = POST, ep_operationId = None, ep_summary = None,
           ep_request = no_analysis, ep_response = no_analysis\<rparr>] \<and>
   map (\<lambda>e. (ep_path e, ep_method e)) [\<lparr>ep_path = ''/items'', ep_method = GET, ep_operationId = None, ep_summary = None,
           ep_request = no_analysis, ep_response = no_analysis\<rparr>,
          \<lparr>ep_path = ''/items'', ep_method = POST, ep_operationId = None, ep_summary = None,
           ep_request = no_analysis, ep_response = no_analysis\<rparr>] =
   concat (map (\<lambda>(path, item). if truthy item \<and> typeof_object item
                                 then map (\<lambda>(m, op). (path, m)) (operations item) else [])
             (js_entries (JObj [(''/items'', JObj [(''get'', JObj []), (''summary'', JStr ''x''), (''post'', JObj [])])])))"
proof -
  have h: "extract_endpoints (JObj []) (JObj [(''/items'', JObj [(''get'', JObj []), (''summary'', JStr ''x''), (''post'', JObj [])])]) =
     Inr [\<lparr>ep_path = ''/items'', ep_method = GET, ep_operationId = None, ep_summary = None,
           ep_request = no_analysis, ep_response = no_analysis\<rparr>,
          \<lparr>ep_path = ''/items'', ep_method = POST, ep_operationId = None, ep_summary = None,
           ep_request = no_analysis, ep_response = no_analysis\<rparr>]"
    unfolding no_analysis_def by code_simp
  from h extract_endpoints_order [OF h] show ?thesis by simp
qed

end
