(* ===== verification/Report.thy ===== *)
theory Report
  imports Extractor
begin

text \<open>
  \<^verbatim>\<open>parseOpenAPI(content)\<close> (lines 165--220 of
  \<^verbatim>\<open>src/src/lib/openapi-parser.ts\<close>): decoding, the marker check, the
  extraction loop of \<open>Extractor\<close>, and the report with its defaults.  The two
  decoders are library code and are parameters here: \<open>json_parse c = None\<close>
  means \<^verbatim>\<open>JSON.parse(c)\<close> throws; \<open>yaml_load c = None\<close> means
  \<^verbatim>\<open>yaml.load(c)\<close> throws and \<open>yaml_load c = Some None\<close> that it returns
  \<^verbatim>\<open>undefined\<close> (an empty YAML stream).
\<close>

type_synonym json_decoder = "string \<Rightarrow> json option"
type_synonym yaml_decoder = "string \<Rightarrow> json option option"

text \<open>\<^verbatim>\<open>interface OpenAPIAnalysis\<close> (lines 17--22).\<close>

record report =
  title :: json
  version :: json
  endpoints :: "endpoint list"
  totalEndpoints :: nat

text \<open>Lines 166--177: JSON first, YAML as the fallback, \<^verbatim>\<open>ParseError\<close> if both throw.\<close>

definition decode :: "json_decoder \<Rightarrow> yaml_decoder \<Rightarrow> string \<Rightarrow> error + json option" where
  "decode json_parse yaml_load content =
     (case json_parse content of
        Some v \<Rightarrow> Inr (Some v)
      | None \<Rightarrow> (case yaml_load content of Some v \<Rightarrow> Inr v | None \<Rightarrow> Inl ParseError))"

text \<open>
  Lines 180--182: \<^verbatim>\<open>if (!spec.openapi && !spec.swagger) throw\<close>.  Reading
  \<^verbatim>\<open>spec.openapi\<close> of a document that decodes to \<^verbatim>\<open>null\<close> or
  \<^verbatim>\<open>undefined\<close> throws a \<^verbatim>\<open>TypeError\<close> first.
\<close>

definition check_marker :: "json option \<Rightarrow> error + json" where
  "check_marker doc =
     (case read_prop doc ''openapi'' of
        Inl e \<Rightarrow> Inl e
      | Inr oa \<Rightarrow>
          (case doc of
             None \<Rightarrow> Inl TypeError
           | Some spec \<Rightarrow>
               if truthy_val oa = None \<and> truthy_val (get spec ''swagger'') = None
               then Inl InvalidSpec else Inr spec))"

text \<open>\<^verbatim>\<open>x || default\<close> for a read that is used as a value.\<close>

definition or_default :: "json option \<Rightarrow> json \<Rightarrow> json" where
  "or_default v d = (case truthy_val v of Some x \<Rightarrow> x | None \<Rightarrow> d)"

text \<open>Lines 184--219 once the document is accepted.\<close>

definition build_report :: "json \<Rightarrow> error + report" where
  "build_report spec =
     (let info = or_default (get spec ''info'') (JObj []);
          paths = or_default (get spec ''paths'') (JObj [])
      in case extract_endpoints spec paths of
           Inl e \<Rightarrow> Inl e
         | Inr eps \<Rightarrow>
             Inr \<lparr>title = or_default (get info ''title'') (JStr ''Untitled API''),
                  version = or_default (get info ''version'') (JStr ''N/A''),
                  endpoints = eps, totalEndpoints = length eps\<rparr>)"

definition parse_openapi :: "json_decoder \<Rightarrow> yaml_decoder \<Rightarrow> string \<Rightarrow> error + report" where
  "parse_openapi json_parse yaml_load content =
     (case decode json_parse yaml_load content of
        Inl e \<Rightarrow> Inl e
      | Inr doc \<Rightarrow>
          (case check_marker doc of
             Inl e \<Rightarrow> Inl e
           | Inr spec \<Rightarrow> build_report spec))"

text \<open>
  Spec scenario 3: one \<^verbatim>\<open>GET /items\<close> operation without a request body whose
  \<^verbatim>\<open>200\<close> response is an array of strings.
\<close>

definition items_doc :: json where
  "items_doc = JObj [(''openapi'', JStr ''3.0.0''),
     (''paths'', JObj [(''/items'', JObj [(''get'', JObj [
        (''responses'', JObj [(''200'', JObj [(''description'', JStr ''ok''),
           (''content'', JObj [(''application/json'', JObj [(''schema'',
              JObj [(''type'', JStr ''array''), (''items'', JObj [(''type'', JStr ''string'')])])])])])])])])])]"

section \<open>Properties of the parser\<close>

text \<open>
  C20: text that neither decoder accepts is rejected with the parse error
  (spec section 7).
\<close>

theorem parse_openapi_parse_error:
  assumes "json_parse c = None" "yaml_load c = None"
  shows "parse_openapi json_parse yaml_load c = Inl ParseError"
  using assms by (simp add: parse_openapi_def decode_def)

theorem parse_openapi_parse_error_witness:
  "parse_openapi (\<lambda>_. None) (\<lambda>_. None) ''{not json'' = Inl ParseError"
  by (rule parse_openapi_parse_error) simp_all

text \<open>
  C21: a decoded document other than \<^verbatim>\<open>null\<close> without a truthy
  \<^verbatim>\<open>openapi\<close> or \<^verbatim>\<open>swagger\<close> field is rejected with the invalid-spec error
  (spec sections 7 and 8).
\<close>

theorem parse_openapi_invalid:
  assumes "decode json_parse yaml_load c = Inr (Some spec)" "spec \<noteq> JNull"
    and "truthy_val (get spec ''openapi'') = None" "truthy_val (get spec ''swagger'') = None"
  shows "parse_openapi json_parse yaml_load c = Inl InvalidSpec"
  using assms by (cases spec) (simp_all add: parse_openapi_def check_marker_def read_prop_def)

theorem parse_openapi_invalid_witness:
  "parse_openapi (\<lambda>_. Some (JObj [(''info'', JObj [])])) (\<lambda>_. None) ''{}'' = Inl InvalidSpec"
  by (rule parse_openapi_invalid [of _ _ _ "JObj [(''info'', JObj [])]"]) (simp_all add: decode_def)

text \<open>
  C22: the text \<^verbatim>\<open>null\<close> (and an empty YAML stream) decodes to a value whose
  marker cannot be read: the parser fails with a \<^verbatim>\<open>TypeError\<close>, neither of the
  two errors spec section 7 names.
\<close>

theorem parse_openapi_null:
  assumes "json_parse c = Some JNull \<or> json_parse c = None \<and> yaml_load c = Some None"
  shows "parse_openapi json_parse yaml_load c = Inl TypeError"
  using assms by (auto simp: parse_openapi_def decode_def check_marker_def read_prop_def)

theorem parse_openapi_null_witness:
  "parse_openapi (\<lambda>_. Some JNull) (\<lambda>_. None) ''null'' = Inl TypeError"
  by (rule parse_openapi_null) simp

text \<open>
  C23: without a truthy \<^verbatim>\<open>info\<close> block the report's title is
  \<^verbatim>\<open>"Untitled API"\<close> and its version \<^verbatim>\<open>"N/A"\<close> (spec scenario 4).
\<close>

theorem build_report_defaults:
  assumes "truthy_val (get spec ''info'') = None" "build_report spec = Inr r"
  shows "title r = JStr ''Untitled API'' \<and> version r = JStr ''N/A''"
  using assms by (auto simp: build_report_def or_default_def Let_def split: sum.splits)

theorem build_report_defaults_witness:
  "build_report (JObj [(''openapi'', JStr ''3.0.0'')]) =
     Inr \<lparr>title = JStr ''Untitled API'', version = JStr ''N/A'', endpoints = [], totalEndpoints = 0\<rparr> \<and>
   title \<lparr>title = JStr ''Untitled API'', version = JStr ''N/A'', endpoints = [], totalEndpoints = 0\<rparr> =
     JStr ''Untitled API'' \<and>
   version \<lparr>title = JStr ''Untitled API'', version = JStr ''N/A'', endpoints = [], totalEndpoints = 0\<rparr> = JStr ''N/A''"
proof -
  have h: "build_report (JObj [(''openapi'', JStr ''3.0.0'')]) =
     Inr \<lparr>title = JStr ''Untitled API'', version = JStr ''N/A'', endpoints = [], totalEndpoints = 0\<rparr>"
    by code_simp
  from h build_report_defaults [OF _ h] show ?thesis by simp
qed

text \<open>
  C24: spec scenario 3 for every operation: an operation without request body
  and without parameters whose response schema is an array of a bare type
  (\<^verbatim>\<open>{type: array, items: {type: t}}\<close>, any \<open>t\<close>) gives an endpoint whose
  request and response analyses are both zero, whatever the document, path and
  method: an absent schema and an array of primitives contribute nothing.
\<close>

theorem endpoint_scenario3:
  assumes "truthy_val (get op ''requestBody'') = None" "truthy_val (get op ''parameters'') = None"
    and "get_response_schema op = Some (JObj [(''type'', JStr ''array''), (''items'', jtype t)])"
  shows "endpoint_of spec path m op =
     Inr \<lparr>ep_path = path, ep_method = m, ep_operationId = get op ''operationId'', ep_summary = get op ''summary'',
          ep_request = no_analysis, ep_response = no_analysis\<rparr>"
proof -
  have rq: "get_request_schema op = Inr None"
    using assms(1,2) by (simp add: get_request_schema_def body_param_schema_def)
  have "analyze spec (Some (JObj [(''type'', JStr ''array''), (''items'', jtype t)])) [] 1 =
      analyze spec (Some (jtype t)) [] (Suc 1)"
    by (subst analyze_array_eq [of _ "JObj [(''type'', JStr ''array''), (''items'', jtype t)]"])
      (simp_all add: js_or_def jtype_def)
  then have "analyze spec (get_response_schema op) [] 1 = Inr no_analysis"
    by (simp add: assms(3) analyze_type_only)
  with rq show ?thesis by (simp add: endpoint_of_def analyze_absent_eq)
qed

theorem endpoint_scenario3_witness:
  "truthy_val (get (JObj [(''responses'', JObj [(''200'', JObj [(''content'', JObj [(''application/json'',
      JObj [(''schema'', JObj [(''type'', JStr ''array''), (''items'', jtype ''string'')])])])])])]) ''requestBody'') = None \<and>
   endpoint_of items_doc ''/items'' GET (JObj [(''responses'', JObj [(''200'', JObj [(''content'', JObj [(''application/json'',
      JObj [(''schema'', JObj [(''type'', JStr ''array''), (''items'', jtype ''string'')])])])])])]) =
     Inr \<lparr>ep_path = ''/items'', ep_method = GET, ep_operationId = None, ep_summary = None,
          ep_request = no_analysis, ep_response = no_analysis\<rparr>"
proof -
  let ?op = "JObj [(''responses'', JObj [(''200'', JObj [(''content'', JObj [(''application/json'',
      JObj [(''schema'', JObj [(''type'', JStr ''array''), (''items'', jtype ''string'')])])])])])]"
  have h: "truthy_val (get ?op ''requestBody'') = None" "truthy_val (get ?op ''parameters'') = None"
    by simp_all
  have r: "get_response_schema ?op = Some (JObj [(''type'', JStr ''array''), (''items'', jtype ''string'')])"
    unfolding get_response_schema_def success_codes_def media_schema_def media_type_def jtype_def by code_simp
  from endpoint_scenario3 [OF h r, of items_doc "''/items''" GET] h show ?thesis by simp
qed

text \<open>
  C31: the pipeline end to end on a well-formed document: when the text decodes
  to a non-null document with an \<^verbatim>\<open>openapi\<close> or \<^verbatim>\<open>swagger\<close> marker,
  the document is well typed (every truthy \<^verbatim>\<open>$ref\<close> a string, every truthy
  composition keyword iterable) and every operation's \<^verbatim>\<open>parameters\<close> is an
  array without \<^verbatim>\<open>null\<close>, \<^verbatim>\<open>parseOpenAPI\<close> does not throw and reports
  exactly one endpoint per operation of a truthy object path item.
\<close>

theorem parse_openapi_ok:
  assumes dec: "decode json_parse yaml_load content = Inr (Some spec)"
    and nn: "spec \<noteq> JNull"
    and marker: "truthy_val (get spec ''openapi'') \<noteq> None \<or> truthy_val (get spec ''swagger'') \<noteq> None"
    and wt: "well_typed spec"
    and ps: "list_all (\<lambda>(path, m, op). params_ok op) (declared_operations (or_default (get spec ''paths'') (JObj [])))"
  shows "\<exists>rep. parse_openapi json_parse yaml_load content = Inr rep \<and>
           totalEndpoints rep = length (declared_operations (or_default (get spec ''paths'') (JObj [])))"
proof -
  have cm: "check_marker (Some spec) = Inr spec"
    using nn marker by (cases spec) (auto simp: check_marker_def read_prop_def)
  have "well_typed (or_default (get spec ''paths'') (JObj []))"
    using wt by (auto simp: or_default_def split: option.splits dest: well_typed_get)
  from extract_endpoints_ok [OF wt this ps] obtain eps where
    "extract_endpoints spec (or_default (get spec ''paths'') (JObj [])) = Inr eps"
    "length eps = length (declared_operations (or_default (get spec ''paths'') (JObj [])))"
    by blast
  with dec cm show ?thesis by (simp add: parse_openapi_def build_report_def Let_def)
qed

theorem parse_openapi_ok_witness:
  "decode (\<lambda>_. Some items_doc) (\<lambda>_. None) ''x'' = Inr (Some items_doc) \<and> items_doc \<noteq> JNull \<and>
   truthy_val (get items_doc ''openapi'') \<noteq> None \<and>
   well_typed items_doc \<and>
   list_all (\<lambda>(path, m, op). params_ok op) (declared_operations (or_default (get items_doc ''paths'') (JObj []))) \<and>
   (\<exists>rep. parse_openapi (\<lambda>_. Some items_doc) (\<lambda>_. None) ''x'' = Inr rep \<and>
     totalEndpoints rep = length (declared_operations (or_default (get items_doc ''paths'') (JObj []))))"
proof -
  have d: "decode (\<lambda>_. Some items_doc) (\<lambda>_. None) ''x'' = Inr (Some items_doc)" by (simp add: decode_def)
  have h: "items_doc \<noteq> JNull"
    "truthy_val (get items_doc ''openapi'') \<noteq> None"
    "well_typed items_doc"
    "list_all (\<lambda>(path, m, op). params_ok op) (declared_operations (or_default (get items_doc ''paths'') (JObj [])))"
    unfolding items_doc_def by code_simp+
  from d h parse_openapi_ok [OF d h(1) disjI1 [OF h(2)] h(3,4)] show ?thesis by blast
qed

end
