(* ===== verification/Page.thy ===== *)
theory Page
  imports Report
begin

text \<open>
  The page that drives the parser: \<^verbatim>\<open>src/src/pages/Index.tsx\<close> (its state
  \<^verbatim>\<open>analysis\<close>, \<^verbatim>\<open>fileName\<close>, \<^verbatim>\<open>isLoading\<close>, the handlers
  \<^verbatim>\<open>handleFileLoad\<close> and \<^verbatim>\<open>handleReset\<close>, the summary numbers) and the
  uploader's \<^verbatim>\<open>handleFile\<close> (\<^verbatim>\<open>src/src/components/FileUploader.tsx\<close>).
  Asynchrony is explicit: a \<^verbatim>\<open>FileReader\<close> read in flight and a
  \<^verbatim>\<open>setTimeout(..., 300)\<close> callback not yet run are queue entries, and a step
  of \<open>page_step\<close> is one event: a drop, a read completing (in any order), the
  oldest timer firing (with the toast it raises), a reset.  Rendering is in
  \<open>View\<close>.
  The parser is a parameter \<open>parse\<close> (in the program it is
  \<open>parse_openapi json_parse yaml_load\<close>).
\<close>

section \<open>The uploader's extension check\<close>

text \<open>\<^verbatim>\<open>toLowerCase()\<close> on ASCII letters; other characters are left unchanged.\<close>

definition lower_char :: "char \<Rightarrow> char" where
  "lower_char c =
     (if (65::nat) \<le> of_char c \<and> of_char c \<le> (90::nat) then char_of (of_char c + (32::nat)) else c)"

definition ends_with :: "string \<Rightarrow> string \<Rightarrow> bool" where
  "ends_with suf s \<longleftrightarrow> length suf \<le> length s \<and> drop (length s - length suf) s = suf"

definition valid_extensions :: "string list" where
  "valid_extensions = [''.json'', ''.yaml'', ''.yml'']"

definition valid_extension :: "string \<Rightarrow> bool" where
  "valid_extension name = list_ex (\<lambda>ext. ends_with ext (map lower_char name)) valid_extensions"

section \<open>Toasts\<close>

text \<open>
  The two toasts of the timer callback (lines 25--34): \<^verbatim>\<open>Analysis Complete\<close>
  with the description \<^verbatim>\<open>Found ${result.totalEndpoints} endpoints in
  ${result.title}\<close>, and the destructive \<^verbatim>\<open>Parse Error\<close> with the message of
  the exception (every exception of the parser is an \<^verbatim>\<open>Error\<close>; its
  text is \<open>error_message\<close>).
\<close>

datatype toast = AnalysisComplete nat json | ParseErrorToast error

definition toast_of :: "error + report \<Rightarrow> toast" where
  "toast_of res = (case res of Inr r \<Rightarrow> AnalysisComplete (totalEndpoints r) (title r) | Inl e \<Rightarrow> ParseErrorToast e)"

fun toast_title :: "toast \<Rightarrow> string" where
  "toast_title (AnalysisComplete n t) = ''Analysis Complete''"
| "toast_title (ParseErrorToast e) = ''Parse Error''"

fun toast_destructive :: "toast \<Rightarrow> bool" where
  "toast_destructive (AnalysisComplete n t) = False"
| "toast_destructive (ParseErrorToast e) = True"

section \<open>Page state and handlers\<close>

text \<open>
  The state of \<^verbatim>\<open>Index\<close> (\<^verbatim>\<open>analysis\<close>, \<^verbatim>\<open>fileName\<close>,
  \<^verbatim>\<open>isLoading\<close>), the state of the mounted \<^verbatim>\<open>FileUploader\<close>
  (\<^verbatim>\<open>error\<close>, \<^verbatim>\<open>isDragOver\<close>), and the pending callbacks.
\<close>

record page =
  pg_analysis :: "report option"
  pg_fileName :: string
  pg_isLoading :: bool
  pg_uploadError :: "string option"
  pg_dragOver :: bool
  pg_readers :: "(string \<times> string) list"   \<comment> \<open>reads in flight: (name, content)\<close>
  pg_timers :: "(string \<times> string) list"    \<comment> \<open>scheduled parses: (content, name)\<close>
  pg_toasts :: "toast list"                  \<comment> \<open>toasts shown, oldest first\<close>

definition init_page :: page where
  "init_page = \<lparr>pg_analysis = None, pg_fileName = [], pg_isLoading = False,
     pg_uploadError = None, pg_dragOver = False, pg_readers = [], pg_timers = [],
     pg_toasts = []\<rparr>"

text \<open>\<^verbatim>\<open>handleFile\<close>: clear the error, check the extension, start the read.\<close>

definition handle_file :: "string \<Rightarrow> string \<Rightarrow> page \<Rightarrow> page" where
  "handle_file name content p =
     (if valid_extension name
      then p\<lparr>pg_uploadError := None, pg_readers := pg_readers p @ [(name, content)]\<rparr>
      else p\<lparr>pg_uploadError := Some ''Please upload a JSON or YAML file''\<rparr>)"

text \<open>
  \<^verbatim>\<open>handleDrop\<close> and \<^verbatim>\<open>handleChange\<close>: only the first file of the event is
  handled (\<^verbatim>\<open>files[0]\<close>), none when the list is empty; a drop also ends the
  drag-over highlight.  Files are (name, content) pairs.
\<close>

definition handle_drop :: "(string \<times> string) list \<Rightarrow> page \<Rightarrow> page" where
  "handle_drop files p =
     (case files of
        [] \<Rightarrow> p\<lparr>pg_dragOver := False\<rparr>
      | (name, content) # _ \<Rightarrow> handle_file name content (p\<lparr>pg_dragOver := False\<rparr>))"

definition handle_change :: "(string \<times> string) list \<Rightarrow> page \<Rightarrow> page" where
  "handle_change files p =
     (case files of [] \<Rightarrow> p | (name, content) # _ \<Rightarrow> handle_file name content p)"

text \<open>\<^verbatim>\<open>onDragOver\<close> and \<^verbatim>\<open>onDragLeave\<close> of the drop zone.\<close>

definition handle_drag :: "bool \<Rightarrow> page \<Rightarrow> page" where
  "handle_drag over p = p\<lparr>pg_dragOver := over\<rparr>"

text \<open>\<^verbatim>\<open>handleFileLoad\<close>, lines 16--19: loading on, file name set, parse scheduled.\<close>

definition handle_file_load :: "string \<Rightarrow> string \<Rightarrow> page \<Rightarrow> page" where
  "handle_file_load content name p =
     p\<lparr>pg_isLoading := True, pg_fileName := name, pg_timers := pg_timers p @ [(content, name)]\<rparr>"

text \<open>
  \<^verbatim>\<open>{!analysis ? ... <FileUploader .../> ...}\<close> (lines 88--100): the uploader is
  unmounted while an analysis is shown, so when the analysis is cleared React
  mounts a fresh one, with no error and no drag highlight.
\<close>

definition remount :: "page \<Rightarrow> page \<Rightarrow> page" where
  "remount p q =
     (if pg_analysis p \<noteq> None \<and> pg_analysis q = None
      then q\<lparr>pg_uploadError := None, pg_dragOver := False\<rparr> else q)"

text \<open>
  The timer callback, lines 21--39: \<^verbatim>\<open>setAnalysis(result)\<close> and the
  success toast, or the error toast and \<^verbatim>\<open>setAnalysis(null)\<close>; then loading
  off.
\<close>

definition timer_fire :: "(string \<Rightarrow> error + report) \<Rightarrow> string \<Rightarrow> page \<Rightarrow> page" where
  "timer_fire parse content p =
     remount p (p\<lparr>pg_analysis := (case parse content of Inr r \<Rightarrow> Some r | Inl e \<Rightarrow> None),
       pg_toasts := pg_toasts p @ [toast_of (parse content)], pg_isLoading := False\<rparr>)"

text \<open>\<^verbatim>\<open>handleReset\<close>, lines 42--45.\<close>

definition handle_reset :: "page \<Rightarrow> page" where
  "handle_reset p = remount p (p\<lparr>pg_analysis := None, pg_fileName := []\<rparr>)"

text \<open>
  The events.  The uploader is on screen only while there is no analysis and
  takes no input while loading (\<^verbatim>\<open>disabled={isLoading}\<close>,
  \<^verbatim>\<open>pointer-events-none\<close>); the reset button is on screen only with an
  analysis (line 72).  A read completes or fails at any time after it started,
  in any order; timers of equal delay run in the order they were set.
\<close>

definition uploader_live :: "page \<Rightarrow> bool" where
  "uploader_live p \<longleftrightarrow> \<not> pg_isLoading p \<and> pg_analysis p = None"

inductive page_step :: "(string \<Rightarrow> error + report) \<Rightarrow> page \<Rightarrow> page \<Rightarrow> bool" where
  drag: "uploader_live p \<Longrightarrow> page_step parse p (handle_drag over p)"
| drop: "uploader_live p \<Longrightarrow> page_step parse p (handle_drop files p)"
| change: "uploader_live p \<Longrightarrow> page_step parse p (handle_change files p)"
| read_done: "pg_readers p = rs1 @ (name, content) # rs2 \<Longrightarrow>
    page_step parse p (handle_file_load content name (p\<lparr>pg_readers := rs1 @ rs2\<rparr>))"
| read_error: "pg_readers p = rs1 @ x # rs2 \<Longrightarrow>
    page_step parse p (p\<lparr>pg_readers := rs1 @ rs2, pg_uploadError := Some ''Failed to read file''\<rparr>)"
| fire: "pg_timers p = (content, name) # ts \<Longrightarrow>
    page_step parse p (timer_fire parse content (p\<lparr>pg_timers := ts\<rparr>))"
| reset: "pg_analysis p \<noteq> None \<Longrightarrow> page_step parse p (handle_reset p)"

inductive reachable :: "(string \<Rightarrow> error + report) \<Rightarrow> page \<Rightarrow> bool" where
  start: "reachable parse init_page"
| step: "reachable parse p \<Longrightarrow> page_step parse p q \<Longrightarrow> reachable parse q"

section \<open>Summary numbers\<close>

text \<open>Lines 47--50: the four \<^verbatim>\<open>reduce\<close> calls over the report's endpoints.\<close>

definition total_request_fields :: "report option \<Rightarrow> nat" where
  "total_request_fields a =
     (case a of None \<Rightarrow> 0 | Some r \<Rightarrow> sum_list (map (fieldCount \<circ> ep_request) (endpoints r)))"

definition total_response_fields :: "report option \<Rightarrow> nat" where
  "total_response_fields a =
     (case a of None \<Rightarrow> 0 | Some r \<Rightarrow> sum_list (map (fieldCount \<circ> ep_response) (endpoints r)))"

definition max_request_depth :: "report option \<Rightarrow> nat" where
  "max_request_depth a =
     (case a of None \<Rightarrow> 0 | Some r \<Rightarrow> fold max (map (maxDepth \<circ> ep_request) (endpoints r)) 0)"

definition max_response_depth :: "report option \<Rightarrow> nat" where
  "max_response_depth a =
     (case a of None \<Rightarrow> 0 | Some r \<Rightarrow> fold max (map (maxDepth \<circ> ep_response) (endpoints r)) 0)"

section \<open>Invariants\<close>

text \<open>
  Every file name the page holds passed the uploader's extension check: the
  pending reads, the scheduled parses and the name on screen (empty before the
  first file and after a reset).
\<close>

definition names_valid :: "page \<Rightarrow> bool" where
  "names_valid p \<longleftrightarrow>
     list_all (\<lambda>(n, c). valid_extension n) (pg_readers p) \<and>
     list_all (\<lambda>(c, n). valid_extension n) (pg_timers p) \<and>
     (pg_fileName p = [] \<or> valid_extension (pg_fileName p))"

section \<open>Lemmas\<close>

inductive_cases page_stepE: "page_step parse p q"

lemmas page_defs = handle_file_def handle_drop_def handle_change_def handle_drag_def
  handle_file_load_def remount_def timer_fire_def handle_reset_def

lemma reachable_loading_timer:
  "reachable parse p \<Longrightarrow> pg_isLoading p \<Longrightarrow> pg_timers p \<noteq> []"
proof (induction rule: reachable.induct)
  case (step parse p q)
  from step.hyps(2) step.IH step.prems show ?case
    by (cases rule: page_stepE)
      (auto simp: page_defs split: if_splits list.splits)
qed (simp add: init_page_def)

lemma reachable_fire:
  assumes "reachable parse p" "pg_timers p = (c, n) # ts"
  shows "reachable parse (timer_fire parse c (p\<lparr>pg_timers := ts\<rparr>))"
  using assms by (blast intro: reachable.step page_step.fire)

lemma reachable_one_file:
  assumes "valid_extension n"
  shows "reachable parse
     \<lparr>pg_analysis = (case parse c of Inr r \<Rightarrow> Some r | Inl e \<Rightarrow> None), pg_fileName = n,
      pg_isLoading = False, pg_uploadError = None, pg_dragOver = False, pg_readers = [], pg_timers = [],
      pg_toasts = [toast_of (parse c)]\<rparr>"
proof -
  let ?p1 = "handle_drop [(n, c)] init_page"
  let ?p2 = "handle_file_load c n (?p1\<lparr>pg_readers := []\<rparr>)"
  have r1: "reachable parse ?p1"
    by (rule reachable.step [OF reachable.start page_step.drop]) (simp_all add: init_page_def uploader_live_def)
  have "page_step parse ?p1 ?p2"
    using page_step.read_done [of ?p1 "[]" n c "[]" parse] assms
    by (simp add: init_page_def page_defs)
  with r1 have r2: "reachable parse ?p2" by (rule reachable.step)
  have "reachable parse (timer_fire parse c (?p2\<lparr>pg_timers := []\<rparr>))"
    by (rule reachable_fire [OF r2]) (simp add: init_page_def page_defs assms)
  then show ?thesis
    by (simp add: init_page_def page_defs assms)
qed

lemma reachable_names_valid: "reachable parse p \<Longrightarrow> names_valid p"
proof (induction rule: reachable.induct)
  case (step parse p q)
  from step.hyps(2) step.IH show ?case
    by (cases rule: page_stepE)
      (auto simp: page_defs names_valid_def split: if_splits list.splits)
qed (simp add: init_page_def names_valid_def)

lemma reachable_sample:
  "reachable (\<lambda>_. Inr \<lparr>title = JStr ''T'', version = JStr ''1'', endpoints = [], totalEndpoints = 0\<rparr>)
     \<lparr>pg_analysis = Some \<lparr>title = JStr ''T'', version = JStr ''1'', endpoints = [], totalEndpoints = 0\<rparr>,
      pg_fileName = ''api.yaml'', pg_isLoading = False, pg_uploadError = None, pg_dragOver = False, pg_readers = [], pg_timers = [],
      pg_toasts = [AnalysisComplete 0 (JStr ''T'')]\<rparr>"
proof -
  have v: "valid_extension ''api.yaml''"
    by (simp add: valid_extension_def valid_extensions_def ends_with_def lower_char_def)
  from reachable_one_file [OF v, of "\<lambda>_. Inr \<lparr>title = JStr ''T'', version = JStr ''1'', endpoints = [], totalEndpoints = 0\<rparr>" "''x''"] show ?thesis
    by (simp add: toast_of_def)
qed

lemma reachable_two_files:
  "reachable parse
     \<lparr>pg_analysis = (case parse ca of Inr r \<Rightarrow> Some r | Inl e \<Rightarrow> None), pg_fileName = ''b.json'',
      pg_isLoading = False, pg_uploadError = None, pg_dragOver = False, pg_readers = [], pg_timers = [(cb, ''b.json'')],
      pg_toasts = [toast_of (parse ca)]\<rparr>"
proof -
  have va: "valid_extension ''a.json''" and vb: "valid_extension ''b.json''"
    by (simp_all add: valid_extension_def valid_extensions_def ends_with_def lower_char_def)
  let ?p1 = "handle_drop [(''a.json'', ca)] init_page"
  let ?p2 = "handle_drop [(''b.json'', cb)] ?p1"
  let ?p3 = "handle_file_load ca ''a.json'' (?p2\<lparr>pg_readers := [(''b.json'', cb)]\<rparr>)"
  let ?p4 = "handle_file_load cb ''b.json'' (?p3\<lparr>pg_readers := []\<rparr>)"
  have r2: "reachable parse ?p2"
    by (rule reachable.step [OF reachable.step [OF reachable.start page_step.drop] page_step.drop])
      (simp_all add: init_page_def page_defs uploader_live_def va)
  have "page_step parse ?p2 ?p3"
    using page_step.read_done [of ?p2 "[]" "''a.json''" ca "[(''b.json'', cb)]" parse]
    by (simp add: init_page_def page_defs va vb)
  with r2 have r3: "reachable parse ?p3" by (rule reachable.step)
  have "page_step parse ?p3 ?p4"
    using page_step.read_done [of ?p3 "[]" "''b.json''" cb "[]" parse]
    by (simp add: init_page_def page_defs va vb)
  with r3 have r4: "reachable parse ?p4" by (rule reachable.step)
  have "reachable parse (timer_fire parse ca (?p4\<lparr>pg_timers := [(cb, ''b.json'')]\<rparr>))"
    by (rule reachable_fire [OF r4]) (simp add: init_page_def page_defs va vb)
  then show ?thesis
    by (simp add: init_page_def page_defs va vb)
qed

section \<open>Properties of the page\<close>

text \<open>
  C25: the loading indicator always ends: from every reachable state the pending
  timers can all fire, after which nothing is scheduled and the page is not
  loading.
\<close>

theorem page_loading_ends:
  "reachable parse p \<Longrightarrow>
     \<exists>q. (page_step parse)\<^sup>*\<^sup>* p q \<and> pg_timers q = [] \<and> \<not> pg_isLoading q \<and> reachable parse q"
proof (induction "pg_timers p" arbitrary: p)
  case Nil
  then show ?case using reachable_loading_timer [OF Nil.prems] by auto
next
  case (Cons t ts)
  obtain c n where t: "t = (c, n)" by (cases t)
  let ?p' = "timer_fire parse c (p\<lparr>pg_timers := ts\<rparr>)"
  have st: "page_step parse p ?p'" by (rule page_step.fire) (simp add: t Cons.hyps(2) [symmetric])
  have r: "reachable parse ?p'" using reachable.step [OF Cons.prems st] .
  have "ts = pg_timers ?p'" by (simp add: timer_fire_def remount_def)
  from Cons.hyps(1) [OF this r] obtain q where
    "(page_step parse)\<^sup>*\<^sup>* ?p' q" "pg_timers q = []" "\<not> pg_isLoading q" "reachable parse q" by blast
  with st show ?case by (blast intro: converse_rtranclp_into_rtranclp)
qed

theorem page_loading_ends_witness:
  "reachable (\<lambda>_. Inl ParseError) init_page \<and>
   (\<exists>q. (page_step (\<lambda>_. Inl ParseError))\<^sup>*\<^sup>* init_page q \<and> pg_timers q = [] \<and> \<not> pg_isLoading q \<and>
        reachable (\<lambda>_. Inl ParseError) q)"
  using page_loading_ends [OF reachable.start] reachable.start by blast

text \<open>
  C26: two files dropped before either is read are both parsed, and the page can
  show the report of the first file under the name of the second, not loading,
  while the second file's parse is still pending.  Nothing in
  \<^verbatim>\<open>handleFileLoad\<close> ties the scheduled parse to the file name it set.
\<close>

theorem page_name_mismatch:
  "reachable parse
     \<lparr>pg_analysis = (case parse ca of Inr r \<Rightarrow> Some r | Inl e \<Rightarrow> None), pg_fileName = ''b.json'',
      pg_isLoading = False, pg_uploadError = None, pg_dragOver = False, pg_readers = [], pg_timers = [(cb, ''b.json'')],
      pg_toasts = [toast_of (parse ca)]\<rparr>"
  by (rule reachable_two_files)

text \<open>
  C32: the last toast describes the report on screen: whenever an analysis is
  shown, the newest toast is \<^verbatim>\<open>Analysis Complete\<close> with that report's
  endpoint count and title.
\<close>

theorem page_toast_matches:
  "reachable parse p \<Longrightarrow> pg_analysis p = Some r \<Longrightarrow>
     pg_toasts p \<noteq> [] \<and> last (pg_toasts p) = AnalysisComplete (totalEndpoints r) (title r)"
proof (induction arbitrary: r rule: reachable.induct)
  case (step parse p q)
  from step.hyps(2) step.IH step.prems show ?case
    by (cases rule: page_stepE)
      (auto simp: page_defs toast_of_def split: sum.splits if_splits list.splits)
qed (simp add: init_page_def)

theorem page_toast_matches_witness:
  "reachable (\<lambda>_. Inr \<lparr>title = JStr ''T'', version = JStr ''1'', endpoints = [], totalEndpoints = 0\<rparr>)
     \<lparr>pg_analysis = Some \<lparr>title = JStr ''T'', version = JStr ''1'', endpoints = [], totalEndpoints = 0\<rparr>,
      pg_fileName = ''api.yaml'', pg_isLoading = False, pg_uploadError = None, pg_dragOver = False, pg_readers = [], pg_timers = [],
      pg_toasts = [AnalysisComplete 0 (JStr ''T'')]\<rparr> \<and>
   last [AnalysisComplete 0 (JStr ''T'')] = AnalysisComplete (totalEndpoints \<lparr>title = JStr ''T'', version = JStr ''1'', endpoints = [], totalEndpoints = 0\<rparr>) (title \<lparr>title = JStr ''T'', version = JStr ''1'', endpoints = [], totalEndpoints = 0\<rparr>)"
  using reachable_sample page_toast_matches [OF reachable_sample] by simp

text \<open>
  C33: the file name on screen always passed the uploader's extension check
  (\<^verbatim>\<open>.json\<close>, \<^verbatim>\<open>.yaml\<close> or \<^verbatim>\<open>.yml\<close>, in any case), or is empty.
\<close>

theorem page_file_name_valid:
  "reachable parse p \<Longrightarrow> pg_fileName p = [] \<or> valid_extension (pg_fileName p)"
  using reachable_names_valid by (simp add: names_valid_def)

theorem page_file_name_valid_witness:
  "reachable (\<lambda>_. Inr \<lparr>title = JStr ''T'', version = JStr ''1'', endpoints = [], totalEndpoints = 0\<rparr>)
     \<lparr>pg_analysis = Some \<lparr>title = JStr ''T'', version = JStr ''1'', endpoints = [], totalEndpoints = 0\<rparr>,
      pg_fileName = ''api.yaml'', pg_isLoading = False, pg_uploadError = None, pg_dragOver = False, pg_readers = [], pg_timers = [],
      pg_toasts = [AnalysisComplete 0 (JStr ''T'')]\<rparr> \<and>
   valid_extension ''api.yaml''"
  using reachable_sample page_file_name_valid [OF reachable_sample] by simp

text \<open>
  C34: a report can be on screen with no file name: after \<^verbatim>\<open>New File\<close>
  (\<^verbatim>\<open>handleReset\<close> clears the name), a parse scheduled for a second file
  before the reset still fires and shows its report, since the reset does not
  cancel the timer.
\<close>

theorem page_reset_stale_report:
  assumes a: "parse ca = Inr ra" and b: "parse cb = Inr rb"
  shows "reachable parse
     \<lparr>pg_analysis = Some rb, pg_fileName = [], pg_isLoading = False, pg_uploadError = None,
      pg_dragOver = False, pg_readers = [], pg_timers = [], pg_toasts = [toast_of (Inr ra), toast_of (Inr rb)]\<rparr>"
proof -
  let ?p5 = "\<lparr>pg_analysis = (case parse ca of Inr r \<Rightarrow> Some r | Inl e \<Rightarrow> None), pg_fileName = ''b.json'',
      pg_isLoading = False, pg_uploadError = None, pg_dragOver = False, pg_readers = [], pg_timers = [(cb, ''b.json'')],
      pg_toasts = [toast_of (parse ca)]\<rparr>"
  have r5: "reachable parse ?p5" by (rule reachable_two_files)
  have "page_step parse ?p5 (handle_reset ?p5)" by (rule page_step.reset) (simp add: a)
  with r5 have r6: "reachable parse (handle_reset ?p5)" by (rule reachable.step)
  have "reachable parse (timer_fire parse cb ((handle_reset ?p5)\<lparr>pg_timers := []\<rparr>))"
    by (rule reachable_fire [OF r6, of cb "''b.json''" "[]"]) (simp add: page_defs a)
  then show ?thesis by (simp add: page_defs a b)
qed

theorem page_reset_stale_report_witness:
  "(\<lambda>_. Inr \<lparr>title = JStr ''T'', version = JStr ''1'', endpoints = [], totalEndpoints = 0\<rparr>) ''a'' = (Inr \<lparr>title = JStr ''T'', version = JStr ''1'', endpoints = [], totalEndpoints = 0\<rparr> :: error + report) \<and>
   reachable (\<lambda>_. Inr \<lparr>title = JStr ''T'', version = JStr ''1'', endpoints = [], totalEndpoints = 0\<rparr>)
     \<lparr>pg_analysis = Some \<lparr>title = JStr ''T'', version = JStr ''1'', endpoints = [], totalEndpoints = 0\<rparr>, pg_fileName = [], pg_isLoading = False, pg_uploadError = None,
      pg_dragOver = False, pg_readers = [], pg_timers = [],
      pg_toasts = [toast_of (Inr \<lparr>title = JStr ''T'', version = JStr ''1'', endpoints = [], totalEndpoints = 0\<rparr>), toast_of (Inr \<lparr>title = JStr ''T'', version = JStr ''1'', endpoints = [], totalEndpoints = 0\<rparr>)]\<rparr>"
  using page_reset_stale_report [of "\<lambda>_. Inr \<lparr>title = JStr ''T'', version = JStr ''1'', endpoints = [], totalEndpoints = 0\<rparr>" "''a''" _ "''b''"] by simp

end
