(* ===== verification/Table.thy ===== *)
theory Table
  imports Report
begin

text \<open>
  The endpoint table of \<^verbatim>\<open>src/src/components/AnalysisTable.tsx\<close>: its
  header, one row per endpoint with its React key, and the badge of
  \<^verbatim>\<open>src/src/components/MethodBadge.tsx\<close> (class arguments and colour).
  Markup and styling classes of the table are not modelled; the values shown are.
\<close>

section \<open>Method badge\<close>

text \<open>\<^verbatim>\<open>const methodColors: Record<string, string>\<close> (lines 9--15).\<close>

definition method_colors :: "(string \<times> string) list" where
  "method_colors =
     [(''GET'', ''bg-method-get/15 text-method-get border-method-get/30''),
      (''POST'', ''bg-method-post/15 text-method-post border-method-post/30''),
      (''PUT'', ''bg-method-put/15 text-method-put border-method-put/30''),
      (''PATCH'', ''bg-method-patch/15 text-method-patch border-method-patch/30''),
      (''DELETE'', ''bg-method-delete/15 text-method-delete border-method-delete/30'')]"

definition fallback_color :: string where
  "fallback_color = ''bg-muted text-muted-foreground border-border''"

text \<open>\<^verbatim>\<open>methodColors[method] || 'bg-muted ...'\<close> (line 17).\<close>

definition method_color :: "string \<Rightarrow> string" where
  "method_color m = (case map_of method_colors m of Some c \<Rightarrow> c | None \<Rightarrow> fallback_color)"

text \<open>
  \<^verbatim>\<open>MethodBadge({method, className})\<close> (lines 8--28): the class arguments
  handed to \<^verbatim>\<open>cn\<close> (falsy ones dropped, as \<^verbatim>\<open>clsx\<close> does; the merge of
  conflicting utility classes by \<^verbatim>\<open>tailwind-merge\<close> is library code) and the
  text of the badge.
\<close>

definition badge_base :: string where
  "badge_base = ''inline-flex items-center justify-center px-2 py-0.5 text-xs font-mono font-semibold rounded border uppercase tracking-wide min-w-[60px]''"

definition method_badge :: "string \<Rightarrow> string option \<Rightarrow> string list \<times> string" where
  "method_badge m class_name =
     ([badge_base, method_color m] @ (case class_name of Some c \<Rightarrow> if c = [] then [] else [c] | None \<Rightarrow> []), m)"

section \<open>Table rows\<close>

text \<open>The header row of the table (lines 20--49): each column's label and sub-label.\<close>

definition table_columns :: "(string \<times> string) list" where
  "table_columns =
     [(''Method'', []), (''Path'', []), (''Request'', ''Fields''), (''Request'', ''Depth''),
      (''Response'', ''Fields''), (''Response'', ''Depth'')]"

text \<open>
  One \<^verbatim>\<open>TableRow\<close> per endpoint (lines 51--93): its key, badge, path, the
  value \<^verbatim>\<open>{endpoint.summary && <span>...</span>}\<close> renders, and four numbers.
  The summary is shown when truthy; of the falsy values React renders only the
  number \<open>0\<close> (as the text \<^verbatim>\<open>0\<close>), and nothing for \<^verbatim>\<open>''\<close>,
  \<^verbatim>\<open>false\<close>, \<^verbatim>\<open>null\<close> or \<^verbatim>\<open>undefined\<close>.
\<close>

record row =
  row_key :: string
  row_method :: string
  row_path :: string
  row_summary :: "json option"
  row_reqFields :: nat
  row_reqDepth :: nat
  row_resFields :: nat
  row_resDepth :: nat

text \<open>\<^verbatim>\<open>key={`${endpoint.method}-${endpoint.path}-${index}`}\<close>\<close>

definition row_of :: "nat \<Rightarrow> endpoint \<Rightarrow> row" where
  "row_of i e =
     \<lparr>row_key = method_name (ep_method e) @ ''-'' @ ep_path e @ ''-'' @ show_nat i,
      row_method = method_name (ep_method e), row_path = ep_path e,
      row_summary = (if ep_summary e = Some (JNum 0) then Some (JNum 0) else truthy_val (ep_summary e)),
      row_reqFields = fieldCount (ep_request e), row_reqDepth = maxDepth (ep_request e),
      row_resFields = fieldCount (ep_response e), row_resDepth = maxDepth (ep_response e)\<rparr>"

text \<open>\<^verbatim>\<open>analysis.endpoints.map((endpoint, index) => ...)\<close>\<close>

definition table_rows :: "report \<Rightarrow> row list" where
  "table_rows r = map (\<lambda>i. row_of i (endpoints r ! i)) [0..<length (endpoints r)]"

section \<open>Lemmas\<close>

lemma dash_not_in_show_nat: "CHR ''-'' \<notin> set (show_nat n)"
proof
  assume "CHR ''-'' \<in> set (show_nat n)"
  with show_nat_digits [of n] have "is_digit (CHR ''-'')" by (auto simp: list_all_iff)
  then show False by (simp add: is_digit_def)
qed

lemma suffix_after_dash:
  assumes "CHR ''-'' \<notin> set s" "CHR ''-'' \<notin> set t" "a @ CHR ''-'' # s = b @ CHR ''-'' # t"
  shows "s = t"
proof -
  have "takeWhile (\<lambda>c. c \<noteq> CHR ''-'') (rev s @ CHR ''-'' # rev a) =
        takeWhile (\<lambda>c. c \<noteq> CHR ''-'') (rev t @ CHR ''-'' # rev b)"
    using arg_cong [OF assms(3), of rev] by simp
  moreover have "takeWhile (\<lambda>c. c \<noteq> CHR ''-'') (rev s @ CHR ''-'' # rev a) = rev s"
    using assms(1) by (subst takeWhile_append2) auto
  moreover have "takeWhile (\<lambda>c. c \<noteq> CHR ''-'') (rev t @ CHR ''-'' # rev b) = rev t"
    using assms(2) by (subst takeWhile_append2) auto
  ultimately have "rev s = rev t" by simp
  then show ?thesis by simp
qed

section \<open>Properties of the table\<close>

text \<open>
  C27: the React keys of the table rows are pairwise distinct, whatever the
  paths: the key ends with the row index after the last dash, and an index
  has no dash.
\<close>

theorem table_rows_keys_distinct: "distinct (map row_key (table_rows r))"
proof -
  have "inj_on (\<lambda>i. row_key (row_of i (endpoints r ! i))) {0..<length (endpoints r)}"
  proof (rule inj_onI)
    fix i j
    assume "row_key (row_of i (endpoints r ! i)) = row_key (row_of j (endpoints r ! j))"
    then have "(method_name (ep_method (endpoints r ! i)) @ CHR ''-'' # ep_path (endpoints r ! i)) @
          CHR ''-'' # show_nat i =
        (method_name (ep_method (endpoints r ! j)) @ CHR ''-'' # ep_path (endpoints r ! j)) @
          CHR ''-'' # show_nat j"
      by (simp add: row_of_def)
    then have "show_nat i = show_nat j"
      by (rule suffix_after_dash [OF dash_not_in_show_nat dash_not_in_show_nat])
    then show "i = j" by (simp add: show_nat_inj)
  qed
  then show ?thesis by (simp add: table_rows_def distinct_map comp_def)
qed

text \<open>
  Of the seven methods the parser reports, \<^verbatim>\<open>OPTIONS\<close> and \<^verbatim>\<open>HEAD\<close>
  have no badge colour of their own and get the neutral fallback.
\<close>

lemma method_color_fallback:
  "method_color (method_name m) = fallback_color \<longleftrightarrow> m = OPTIONS \<or> m = HEAD"
  by (cases m) (simp_all add: method_color_def method_colors_def fallback_color_def)

end
