(* ===== verification/View.thy ===== *)
theory View
  imports Page Table
begin

text \<open>
  What the page renders from its state: \<^verbatim>\<open>src/src/pages/Index.tsx\<close>
  (the header, the uploader with its introduction, or the report header, the
  four \<^verbatim>\<open>StatsCard\<close>s and the table of \<open>Table\<close>; the footer), the text of
  \<^verbatim>\<open>src/src/components/StatsCard.tsx\<close> and what
  \<^verbatim>\<open>src/src/components/FileUploader.tsx\<close> renders.  Markup, class names
  and animation delays are not modelled; the texts, values and icons shown are.
\<close>

section \<open>Icons\<close>

text \<open>The \<^verbatim>\<open>lucide-react\<close> icons the page and its components render.\<close>

datatype icon = FileJson | Layers | Hash | ArrowRightLeft | FileText | RefreshCw | Upload | AlertCircle

section \<open>Stats cards\<close>

text \<open>The props of \<^verbatim>\<open>StatsCard\<close> that are shown (lines 4--10; the delay is animation).\<close>

record card =
  card_title :: string
  card_value :: nat
  card_subtitle :: "string option"
  card_icon :: icon

text \<open>The four \<^verbatim>\<open>StatsCard\<close>s of lines 144--172.\<close>

definition stats_cards :: "report \<Rightarrow> card list" where
  "stats_cards r =
     [\<lparr>card_title = ''Total Endpoints'', card_value = totalEndpoints r, card_subtitle = None, card_icon = ArrowRightLeft\<rparr>,
      \<lparr>card_title = ''Total Request Fields'', card_value = total_request_fields (Some r), card_subtitle = None,
       card_icon = Hash\<rparr>,
      \<lparr>card_title = ''Total Response Fields'', card_value = total_response_fields (Some r), card_subtitle = None,
       card_icon = Hash\<rparr>,
      \<lparr>card_title = ''Max Nesting Depth'',
       card_value = max (max_request_depth (Some r)) (max_response_depth (Some r)),
       card_subtitle = Some (''Req: '' @ show_nat (max_request_depth (Some r)) @
                             '' / Res: '' @ show_nat (max_response_depth (Some r))),
       card_icon = Layers\<rparr>]"

text \<open>
  \<^verbatim>\<open>StatsCard\<close> (\<^verbatim>\<open>src/src/components/StatsCard.tsx\<close>, lines 12--37): the
  title, the value in decimal, the subtitle when it is truthy (a non-empty
  string), and the icon.  Class names and the animation delay are presentation.
\<close>

definition stats_card_render :: "card \<Rightarrow> string list \<times> icon" where
  "stats_card_render c =
     ([card_title c, show_nat (card_value c)] @
      (case card_subtitle c of Some s \<Rightarrow> if s = [] then [] else [s] | None \<Rightarrow> []),
      card_icon c)"

section \<open>The uploader and the page view\<close>

text \<open>
  What \<^verbatim>\<open>FileUploader\<close> renders (lines 55--115): the prompt, which changes
  while a file is dragged over, the highlight, the file input (disabled while
  loading, with its \<^verbatim>\<open>accept\<close> filter) and the error line, shown when the
  error is truthy.
\<close>

record uploader_view =
  up_icon :: icon
  up_prompt :: string
  up_highlight :: bool
  up_disabled :: bool
  up_accept :: string
  up_error :: "string option"

definition uploader_render :: "bool \<Rightarrow> bool \<Rightarrow> string option \<Rightarrow> uploader_view" where
  "uploader_render is_loading is_drag_over err =
     \<lparr>up_icon = (if is_drag_over then FileJson else Upload),
      up_prompt = (if is_drag_over then ''Drop your file here'' else ''Drop your OpenAPI file here''),
      up_highlight = is_drag_over, up_disabled = is_loading, up_accept = ''.json,.yaml,.yml'',
      up_error = (case err of Some e \<Rightarrow> if e = [] then None else Some e | None \<Rightarrow> None)\<rparr>"

text \<open>
  \<^verbatim>\<open>{!analysis ? <uploader> : <report>}\<close> (lines 88--173): the uploader, or
  the title, version, file name, cards and rows; or, when a rendered value is a
  plain object, the error React throws (there is no error boundary, so the
  page goes blank).  The \<^verbatim>\<open>New File\<close> button of
  the header (lines 72--82) is shown exactly with a report.
\<close>

text \<open>
  A JSON value as a React child: strings, numbers and booleans render, and
  \<^verbatim>\<open>null\<close> renders nothing; an array renders its elements; a plain object is
  not a valid child and makes rendering throw.
\<close>

fun react_child :: "json \<Rightarrow> bool" where
  "react_child (JObj kvs) = False"
| "react_child (JArr xs) = list_all react_child xs"
| "react_child _ = True"

text \<open>
  The values of the report that are rendered as children: title and version
  (lines 129 and 131) and every summary that is shown (AnalysisTable line 65).
\<close>

definition report_renders :: "report \<Rightarrow> bool" where
  "report_renders r \<longleftrightarrow>
     react_child (title r) \<and> react_child (version r) \<and>
     list_all (\<lambda>rw. case row_summary rw of Some v \<Rightarrow> react_child v | None \<Rightarrow> True) (table_rows r)"

datatype view =
    UploadView uploader_view
  | ReportView json json string "card list" "row list"
  | RenderError

definition page_view :: "page \<Rightarrow> view" where
  "page_view p =
     (case pg_analysis p of
        None \<Rightarrow> UploadView (uploader_render (pg_isLoading p) (pg_dragOver p) (pg_uploadError p))
      | Some r \<Rightarrow>
          if report_renders r then ReportView (title r) (version r) (pg_fileName p) (stats_cards r) (table_rows r)
          else RenderError)"

definition new_file_button :: "page \<Rightarrow> bool" where
  "new_file_button p \<longleftrightarrow> pg_analysis p \<noteq> None"

section \<open>The whole screen\<close>

text \<open>
  The header (lines 55--85): the application's icon, name and tagline, and the
  \<^verbatim>\<open>New File\<close> button with its icon when a report is shown.
\<close>

record header =
  hd_icon :: icon
  hd_title :: string
  hd_subtitle :: string
  hd_button :: "(icon \<times> string) option"

definition page_header :: "page \<Rightarrow> header" where
  "page_header p =
     \<lparr>hd_icon = FileJson, hd_title = ''OpenAPI Analyzer'',
      hd_subtitle = ''Analyze request/response structure complexity'',
      hd_button = (if new_file_button p then Some (RefreshCw, ''New File'') else None)\<rparr>"

text \<open>The introduction above the uploader and the two feature hints below it (lines 89--119).\<close>

definition upload_intro :: "string \<times> string" where
  "upload_intro =
     (''Upload your OpenAPI specification'',
      ''Get instant insights on field counts and nesting depth for each endpoint'')"

definition feature_hints :: "(icon \<times> string \<times> string) list" where
  "feature_hints =
     [(Hash, ''Field Count'', ''Count all fields in request and response schemas''),
      (Layers, ''Nesting Depth'', ''Measure data structure complexity levels'')]"

text \<open>The footer (lines 176--183).\<close>

definition footer_text :: string where
  "footer_text = ''Supports OpenAPI 2.0 (Swagger) and OpenAPI 3.x specifications''"

text \<open>
  The whole of \<^verbatim>\<open>Index\<close>'s output (lines 52--185): header, main part
  (with the introduction and hints around the uploader when no report is shown,
  the report otherwise) and footer; nothing (\<open>None\<close>) once rendering has
  thrown.
\<close>

record screen =
  scr_header :: header
  scr_intro :: "(string \<times> string) option"
  scr_main :: view
  scr_hints :: "(icon \<times> string \<times> string) list"
  scr_footer :: string

definition page_screen :: "page \<Rightarrow> screen option" where
  "page_screen p =
     (if page_view p = RenderError then None
      else Some \<lparr>scr_header = page_header p,
        scr_intro = (if pg_analysis p = None then Some upload_intro else None),
        scr_main = page_view p,
        scr_hints = (if pg_analysis p = None then feature_hints else []),
        scr_footer = footer_text\<rparr>)"

section \<open>Properties of the view\<close>

text \<open>
  C28: the four stats cards show the aggregates of spec section 6: the number of
  endpoints, the sums of the request and of the response field counts, and the
  largest request or response depth (0 without endpoints); the \<^verbatim>\<open>reduce\<close>
  loops with \<^verbatim>\<open>|| 0\<close> implement exactly these sums and maximum.
\<close>

theorem stats_cards_aggregates:
  "map card_value (stats_cards r) =
     [totalEndpoints r,
      \<Sum>e\<leftarrow>endpoints r. fieldCount (ep_request e),
      \<Sum>e\<leftarrow>endpoints r. fieldCount (ep_response e),
      Max (insert 0 ((maxDepth \<circ> ep_request) ` set (endpoints r) \<union>
                     (maxDepth \<circ> ep_response) ` set (endpoints r)))]"
proof -
  have "max (Max (insert 0 ((maxDepth \<circ> ep_request) ` set (endpoints r))))
            (Max (insert 0 ((maxDepth \<circ> ep_response) ` set (endpoints r)))) =
        Max (insert 0 ((maxDepth \<circ> ep_request) ` set (endpoints r) \<union>
                       (maxDepth \<circ> ep_response) ` set (endpoints r)))"
    by (subst Max_Un [symmetric]) (auto simp: insert_absorb)
  then show ?thesis
    by (simp add: stats_cards_def total_request_fields_def total_response_fields_def
        max_request_depth_def max_response_depth_def fold_max_eq_Max comp_def)
qed

text \<open>
  C35: a rejected document ends in the upload view (spec section 7: the caller
  may retry): after the scheduled parse of a document without an
  \<^verbatim>\<open>openapi\<close> or \<^verbatim>\<open>swagger\<close> marker fires, the page shows the
  uploader, not loading and accepting a new file, no \<^verbatim>\<open>New File\<close> button,
  and the newest toast is the destructive \<^verbatim>\<open>Parse Error\<close> carrying the
  parser's message, whatever the page showed before.
\<close>

theorem page_rejects_invalid:
  assumes dec: "json_parse c = Some spec" and nn: "spec \<noteq> JNull"
    and no: "truthy_val (get spec ''openapi'') = None" "truthy_val (get spec ''swagger'') = None"
  shows \<open>let q = timer_fire (parse_openapi json_parse yaml_load) c p in
         page_view q = UploadView (uploader_render False (pg_dragOver q) (pg_uploadError q)) \<and>
         \<not> new_file_button q \<and> uploader_live q \<and>
         last (pg_toasts q) = ParseErrorToast InvalidSpec \<and> toast_title (last (pg_toasts q)) = ''Parse Error'' \<and>
         toast_destructive (last (pg_toasts q)) \<and>
         error_message InvalidSpec = ''Invalid OpenAPI specification. Missing "openapi" or "swagger" field.''\<close>
proof -
  have "parse_openapi json_parse yaml_load c = Inl InvalidSpec"
    using dec nn no by (cases spec) (simp_all add: parse_openapi_def decode_def check_marker_def read_prop_def)
  then show ?thesis
    by (simp add: Let_def page_defs page_view_def error_message_def new_file_button_def uploader_live_def toast_of_def)
qed

theorem page_rejects_invalid_witness:
  "(\<lambda>_. Some (JObj [(''info'', JObj [])])) ''x'' = Some (JObj [(''info'', JObj [])]) \<and> JObj [(''info'', JObj [])] \<noteq> JNull \<and>
   truthy_val (get (JObj [(''info'', JObj [])]) ''openapi'') = None \<and> truthy_val (get (JObj [(''info'', JObj [])]) ''swagger'') = None \<and>
   uploader_live (timer_fire (parse_openapi (\<lambda>_. Some (JObj [(''info'', JObj [])])) (\<lambda>_. None)) ''x'' init_page) \<and>
   last (pg_toasts (timer_fire (parse_openapi (\<lambda>_. Some (JObj [(''info'', JObj [])])) (\<lambda>_. None)) ''x'' init_page)) =
     ParseErrorToast InvalidSpec"
  using page_rejects_invalid [of "\<lambda>_. Some (JObj [(''info'', JObj [])])" "''x''" "JObj [(''info'', JObj [])]" "\<lambda>_. None" init_page]
  by (simp add: Let_def)

end
