(* ===== verification/Visited.thy ===== *)
theory Visited
  imports Analyzer
begin

text \<open>
  \<^verbatim>\<open>analyzeSchema\<close> as the source runs it, with its mutable
  \<^verbatim>\<open>Set\<close> objects in an explicit store: a set is an address of the store
  \<open>hp_sets\<close>, and \<^verbatim>\<open>new Set(visited)\<close> allocates the next free address
  \<open>hp_next\<close> holding a copy (\<open>copy_set\<close>).  The \<^verbatim>\<open>$ref\<close> case adds the
  pointer to the caller's own set (\<open>set_add\<close>) and hands that same set to its
  callee, the array case hands it on as well, and every branch of a composition
  and every property (and \<^verbatim>\<open>additionalProperties\<close>) gets a fresh copy.  The
  loops thread the store from one body to the next (\<open>loop_st\<close>).  The
  function is a \<open>partial_function (option)\<close>: nothing in its definition says
  it returns; the refinement theorem proves that it does.  A truthy non-string
  \<^verbatim>\<open>$ref\<close> makes \<^verbatim>\<open>resolveRef\<close> throw; the exception ends the
  analysis, so the store after it is never read and is returned unchanged here.
\<close>

section \<open>The store of sets\<close>

record heap =
  hp_sets :: "nat \<Rightarrow> string set"
  hp_next :: nat

text \<open>\<^verbatim>\<open>new Set(visited)\<close>: the copy is stored at the next free address.\<close>

definition copy_set :: "nat \<Rightarrow> heap \<Rightarrow> heap" where
  "copy_set v h = h\<lparr>hp_sets := (hp_sets h)(hp_next h := hp_sets h v), hp_next := Suc (hp_next h)\<rparr>"

text \<open>\<^verbatim>\<open>visited.add(schema.$ref)\<close>, in place.\<close>

definition set_add :: "nat \<Rightarrow> string \<Rightarrow> heap \<Rightarrow> heap" where
  "set_add v r h = h\<lparr>hp_sets := (hp_sets h)(v := insert r (hp_sets h v))\<rparr>"

section \<open>The analyser on the store\<close>

partial_function (option) analyze_heap ::
  "json \<Rightarrow> json option \<Rightarrow> nat \<Rightarrow> nat \<Rightarrow> heap \<Rightarrow> ((error + analysis) \<times> heap) option" where
  "analyze_heap spec schema v depth h =
    (case truthy_val schema of
      None \<Rightarrow> Some (Inr no_analysis, h)
    | Some s \<Rightarrow>
      (case truthy_val (get s ''$ref'') of
        Some (JStr r) \<Rightarrow>
          if r \<in> hp_sets h v then Some (Inr \<lparr>fieldCount = 0, maxDepth = depth\<rparr>, h)
          else analyze_heap spec (resolve_ref spec r) v depth (set_add v r h)
      | Some _ \<Rightarrow> Some (Inl TypeError, h)
      | None \<Rightarrow>
      (case truthy_val (get s ''allOf'') of
        Some a \<Rightarrow>
          (case js_iter a of
            Inl e \<Rightarrow> Some (Inl e, h)
          | Inr bs \<Rightarrow>
              Option.bind (loop_st (\<lambda>b h. analyze_heap spec (Some b) (hp_next h) depth (copy_set v h)) bs h)
                (\<lambda>(res, h'). Some (map_sum id (all_of_result depth) res, h')))
      | None \<Rightarrow>
      (case js_or (get s ''oneOf'') (get s ''anyOf'') of
        Some a \<Rightarrow>
          (case js_iter a of
            Inl e \<Rightarrow> Some (Inl e, h)
          | Inr bs \<Rightarrow>
              Option.bind (loop_st (\<lambda>b h. analyze_heap spec (Some b) (hp_next h) depth (copy_set v h)) bs h)
                (\<lambda>(res, h'). Some (map_sum id (one_of_result depth) res, h')))
      | None \<Rightarrow>
      if get s ''type'' = Some (JStr ''array'') \<and> truthy_val (get s ''items'') \<noteq> None
      then analyze_heap spec (get s ''items'') v (Suc depth) h
      else if get s ''type'' = Some (JStr ''object'') \<or> truthy_val (get s ''properties'') \<noteq> None
      then
        Option.bind
          (loop_st (\<lambda>k h.
             Option.bind (analyze_heap spec (get (props_of s) k) (hp_next h) (Suc depth) (copy_set v h))
               (\<lambda>(res, h'). Some (case res of
                   Inl e \<Rightarrow> Inl e
                 | Inr r \<Rightarrow> map_sum id (Pair r) (prop_guard (get (props_of s) k) r), h')))
             (js_keys (props_of s)) h)
          (\<lambda>(res, h'). case res of
             Inl e \<Rightarrow> Some (Inl e, h')
           | Inr rs \<Rightarrow>
               (case truthy_val (get s ''additionalProperties'') of
                 Some ap \<Rightarrow>
                   if typeof_object ap then
                     Option.bind (analyze_heap spec (Some ap) (hp_next h') (Suc depth) (copy_set v h'))
                       (\<lambda>(ra, h''). Some (case ra of
                          Inl e \<Rightarrow> Inl e
                        | Inr a \<Rightarrow> Inr (add_extra (object_result depth (length (js_keys (props_of s))) rs) a), h''))
                   else Some (Inr (object_result depth (length (js_keys (props_of s))) rs), h')
               | None \<Rightarrow> Some (Inr (object_result depth (length (js_keys (props_of s))) rs), h')))
      else Some (Inr no_analysis, h)))))"


declare analyze_heap.simps [simp del]

text \<open>
  A store in which the set \<open>v\<close> holds the pointers of \<open>vis\<close> and is
  allocated, and the effect a call on set \<open>v\<close> may have: it allocates, and it
  changes no allocated set but \<open>v\<close>.
\<close>

definition heap_ok :: "nat \<Rightarrow> string list \<Rightarrow> heap \<Rightarrow> bool" where
  "heap_ok v vis h \<longleftrightarrow> hp_sets h v = set vis \<and> v < hp_next h"

definition frame :: "nat \<Rightarrow> heap \<Rightarrow> heap \<Rightarrow> bool" where
  "frame v h h' \<longleftrightarrow> hp_next h \<le> hp_next h' \<and> (\<forall>u<hp_next h. u \<noteq> v \<longrightarrow> hp_sets h' u = hp_sets h u)"

text \<open>The empty store with one allocated set, at address 0.\<close>

definition heap0 :: heap where
  "heap0 = \<lparr>hp_sets = (\<lambda>_. {}), hp_next = 1\<rparr>"

section \<open>Lemmas\<close>

lemma frame_refl [simp]: "frame v h h"
  by (simp add: frame_def)

lemma frame_fresh_trans:
  "frame (hp_next h) h h' \<Longrightarrow> frame (hp_next h') h' h'' \<Longrightarrow> frame (hp_next h) h h''"
  by (auto simp: frame_def)

lemma frame_fresh_ok: "heap_ok v vis h \<Longrightarrow> frame (hp_next h) h h' \<Longrightarrow> heap_ok v vis h'"
  by (auto simp: frame_def heap_ok_def)

lemma frame_fresh_own: "heap_ok v vis h \<Longrightarrow> frame (hp_next h) h h' \<Longrightarrow> frame v h h'"
  by (auto simp: frame_def heap_ok_def)

lemma frame_add: "frame v (set_add v r h) h' \<Longrightarrow> frame v h h'"
  by (auto simp: frame_def set_add_def)

lemma heap_ok_add: "heap_ok v vis h \<Longrightarrow> heap_ok v (r # vis) (set_add v r h)"
  by (simp add: heap_ok_def set_add_def)

text \<open>A call on a fresh copy of a well-formed set changes no set allocated before it.\<close>

lemma copy_call:
  assumes ok: "heap_ok v vis h"
    and run: "\<And>v' h'. heap_ok v' vis h' \<Longrightarrow> \<exists>h''. F v' h' = Some (X, h'') \<and> frame v' h' h''"
  shows "\<exists>h'. F (hp_next h) (copy_set v h) = Some (X, h') \<and> frame (hp_next h) h h'"
proof -
  have "heap_ok (hp_next h) vis (copy_set v h)"
    using ok by (simp add: heap_ok_def copy_set_def)
  from run [OF this] obtain h'' where "F (hp_next h) (copy_set v h) = Some (X, h'')"
    and "frame (hp_next h) (copy_set v h) h''" by blast
  then show ?thesis by (auto simp: frame_def copy_set_def)
qed

text \<open>A loop whose bodies run on fresh copies computes \<open>seq_sum\<close> of their results.\<close>

lemma loop_st_run:
  assumes "\<And>x h. x \<in> set xs \<Longrightarrow> heap_ok v vis h \<Longrightarrow> \<exists>h'. f x h = Some (g x, h') \<and> frame (hp_next h) h h'"
  shows "heap_ok v vis h \<Longrightarrow> \<exists>h'. loop_st f xs h = Some (seq_sum (map g xs), h') \<and> frame (hp_next h) h h'"
  using assms
proof (induction xs arbitrary: h)
  case (Cons x xs)
  from Cons.prems(2) [of x h] Cons.prems(1) obtain h1 where
    h1: "f x h = Some (g x, h1)" "frame (hp_next h) h h1" by auto
  show ?case
  proof (cases "g x")
    case (Inr y)
    have "heap_ok v vis h1" by (rule frame_fresh_ok [OF Cons.prems(1) h1(2)])
    from Cons.IH [OF this] Cons.prems(2) obtain h2 where
      "loop_st f xs h1 = Some (seq_sum (map g xs), h2)" "frame (hp_next h1) h1 h2" by auto
    with h1 Inr show ?thesis
      by (cases "seq_sum (map g xs)") (auto intro: frame_fresh_trans)
  qed (use h1 in auto)
qed simp

text \<open>The composition loops: every branch on its own copy of the caller's set.\<close>

lemma heap_branches:
  assumes ok: "heap_ok v vis h"
    and IH: "\<And>b v' h'. b \<in> set bs \<Longrightarrow> hp_sets h' v' = set vis \<Longrightarrow> v' < hp_next h' \<Longrightarrow>
      \<exists>h''. analyze_heap spec (Some b) v' d h' = Some (analyze spec (Some b) vis d, h'') \<and> frame v' h' h''"
  shows "\<exists>h'. loop_st (\<lambda>b h. analyze_heap spec (Some b) (hp_next h) d (copy_set v h)) bs h =
      Some (seq_sum (map (\<lambda>b. analyze spec (Some b) vis d) bs), h') \<and> frame v h h'"
proof -
  have "\<exists>h'. loop_st (\<lambda>b h. analyze_heap spec (Some b) (hp_next h) d (copy_set v h)) bs h =
      Some (seq_sum (map (\<lambda>b. analyze spec (Some b) vis d) bs), h') \<and> frame (hp_next h) h h'"
  proof (rule loop_st_run [OF _ ok])
    fix b h1
    assume b: "b \<in> set bs" and ok1: "heap_ok v vis h1"
    show "\<exists>h'. analyze_heap spec (Some b) (hp_next h1) d (copy_set v h1) =
        Some (analyze spec (Some b) vis d, h') \<and> frame (hp_next h1) h1 h'"
      by (rule copy_call [OF ok1]) (use IH [OF b] in \<open>auto simp: heap_ok_def\<close>)
  qed
  then show ?thesis using frame_fresh_own [OF ok] by blast
qed

text \<open>The object case: every property and \<^verbatim>\<open>additionalProperties\<close> on its own copy.\<close>

lemma heap_object:
  assumes plain: "truthy_val schema = Some s" "truthy_val (get s ''$ref'') = None"
      "truthy_val (get s ''allOf'') = None" "js_or (get s ''oneOf'') (get s ''anyOf'') = None"
    and notarr: "\<not> (get s ''type'' = Some (JStr ''array'') \<and> truthy_val (get s ''items'') \<noteq> None)"
    and isobj: "get s ''type'' = Some (JStr ''object'') \<or> truthy_val (get s ''properties'') \<noteq> None"
    and ok: "heap_ok v vis h"
    and IHk: "\<And>k v' h'. k \<in> set (js_keys (props_of s)) \<Longrightarrow> hp_sets h' v' = set vis \<Longrightarrow> v' < hp_next h' \<Longrightarrow>
      \<exists>h''. analyze_heap spec (get (props_of s) k) v' (Suc d) h' =
        Some (analyze spec (get (props_of s) k) vis (Suc d), h'') \<and> frame v' h' h''"
    and IHa: "\<And>rs ap v' h'. seq_sum (map (\<lambda>k. case analyze spec (get (props_of s) k) vis (Suc d) of
        Inl e \<Rightarrow> Inl e | Inr r \<Rightarrow> map_sum id (Pair r) (prop_guard (get (props_of s) k) r))
        (js_keys (props_of s))) = Inr rs \<Longrightarrow>
      truthy_val (get s ''additionalProperties'') = Some ap \<Longrightarrow> typeof_object ap \<Longrightarrow>
      hp_sets h' v' = set vis \<Longrightarrow> v' < hp_next h' \<Longrightarrow>
      \<exists>h''. analyze_heap spec (Some ap) v' (Suc d) h' = Some (analyze spec (Some ap) vis (Suc d), h'') \<and> frame v' h' h''"
  shows "\<exists>h'. analyze_heap spec schema v d h = Some (analyze spec schema vis d, h') \<and> frame v h h'"
proof -
  define G where "G k res = (case res of Inl e \<Rightarrow> Inl e
    | Inr r \<Rightarrow> map_sum id (Pair r) (prop_guard (get (props_of s) k) r))" for k res
  have "\<exists>h1. loop_st (\<lambda>k h. Option.bind (analyze_heap spec (get (props_of s) k) (hp_next h) (Suc d)
        (copy_set v h)) (\<lambda>(res, h'). Some (G k res, h'))) (js_keys (props_of s)) h =
      Some (seq_sum (map (\<lambda>k. G k (analyze spec (get (props_of s) k) vis (Suc d))) (js_keys (props_of s))), h1) \<and>
      frame (hp_next h) h h1"
  proof (rule loop_st_run [OF _ ok])
    fix k h1
    assume k: "k \<in> set (js_keys (props_of s))" and ok1: "heap_ok v vis h1"
    have "\<exists>h'. analyze_heap spec (get (props_of s) k) (hp_next h1) (Suc d) (copy_set v h1) =
        Some (analyze spec (get (props_of s) k) vis (Suc d), h') \<and> frame (hp_next h1) h1 h'"
      by (rule copy_call [OF ok1]) (use IHk [OF k] in \<open>auto simp: heap_ok_def\<close>)
    then show "\<exists>h'. Option.bind (analyze_heap spec (get (props_of s) k) (hp_next h1) (Suc d) (copy_set v h1))
        (\<lambda>(res, h'). Some (G k res, h')) =
        Some (G k (analyze spec (get (props_of s) k) vis (Suc d)), h') \<and> frame (hp_next h1) h1 h'"
      by auto
  qed
  then obtain h1 where
    loop: "loop_st (\<lambda>k h. Option.bind (analyze_heap spec (get (props_of s) k) (hp_next h) (Suc d)
        (copy_set v h)) (\<lambda>(res, h'). Some (G k res, h'))) (js_keys (props_of s)) h =
      Some (seq_sum (map (\<lambda>k. G k (analyze spec (get (props_of s) k) vis (Suc d))) (js_keys (props_of s))), h1)"
    and fr1: "frame (hp_next h) h h1" by blast
  have ok1: "heap_ok v vis h1" by (rule frame_fresh_ok [OF ok fr1])
  note eq = analyze_object_eq [OF plain notarr isobj, of spec vis d]
  note heq = analyze_heap.simps [of spec schema v d h]
  show ?thesis
  proof (cases "seq_sum (map (\<lambda>k. G k (analyze spec (get (props_of s) k) vis (Suc d))) (js_keys (props_of s)))")
    case (Inl e)
    with loop fr1 plain notarr isobj show ?thesis
      unfolding heq eq G_def [abs_def]
      by (simp add: frame_fresh_own [OF ok] del: truthy_val_Some not_None_eq cong: conj_cong)
  next
    case (Inr rs)
    have seq: "seq_sum (map (\<lambda>k. case analyze spec (get (props_of s) k) vis (Suc d) of
        Inl e \<Rightarrow> Inl e | Inr r \<Rightarrow> map_sum id (Pair r) (prop_guard (get (props_of s) k) r))
        (js_keys (props_of s))) = Inr rs"
      using Inr by (simp add: G_def)
    show ?thesis
    proof (cases "truthy_val (get s ''additionalProperties'')")
      case (Some ap)
      show ?thesis
      proof (cases "typeof_object ap")
        case True
        have "\<exists>h2. analyze_heap spec (Some ap) (hp_next h1) (Suc d) (copy_set v h1) =
            Some (analyze spec (Some ap) vis (Suc d), h2) \<and> frame (hp_next h1) h1 h2"
          by (rule copy_call [OF ok1])
            (use IHa [OF seq Some True] in \<open>auto simp: heap_ok_def\<close>)
        then obtain h2 where run2: "analyze_heap spec (Some ap) (hp_next h1) (Suc d) (copy_set v h1) =
            Some (analyze spec (Some ap) vis (Suc d), h2)" and fr2: "frame (hp_next h1) h1 h2" by blast
        have "frame v h h2" by (rule frame_fresh_own [OF ok frame_fresh_trans [OF fr1 fr2]])
        with loop Inr seq Some True run2 plain notarr isobj show ?thesis
          unfolding heq eq G_def [abs_def]
          by (cases "analyze spec (Some ap) vis (Suc d)")
            (simp_all del: truthy_val_Some not_None_eq cong: conj_cong)
      next
        case False
        with loop Inr seq Some plain notarr isobj show ?thesis
          unfolding heq eq G_def [abs_def]
          by (simp add: frame_fresh_own [OF ok fr1] del: truthy_val_Some not_None_eq cong: conj_cong)
      qed
    next
      case None
      with loop Inr seq plain notarr isobj show ?thesis
        unfolding heq eq G_def [abs_def]
        by (simp add: frame_fresh_own [OF ok fr1] del: truthy_val_Some not_None_eq cong: conj_cong)
    qed
  qed
qed

section \<open>Refinement\<close>

text \<open>
  C29: the code's own evaluation, with its mutable sets, computes what the
  by-value model computes: on a store whose set \<open>v\<close> holds exactly the
  pointers of \<open>vis\<close>, the analyser on the store returns (it is a partial
  function, and this shows it terminates), its result is \<open>analyze\<close>'s, errors
  included, and it changes no allocated set other than \<open>v\<close> itself.  So the
  sets a branch mutates never leak into its siblings (spec section 9 on
  per-branch copies), and every property proved of \<open>analyze\<close> holds of the
  code's evaluation.
\<close>

theorem analyze_heap_refines:
  "hp_sets h v = set vis \<Longrightarrow> v < hp_next h \<Longrightarrow>
   \<exists>h'. analyze_heap spec schema v d h = Some (analyze spec schema vis d, h') \<and> frame v h h'"
proof (induction spec schema vis d arbitrary: v h rule: analyze.induct)
  case (1 spec schema vis d)
  have ok: "heap_ok v vis h" using "1.prems" by (simp add: heap_ok_def)
  show ?case
  proof (cases "truthy_val schema")
    case None
    then show ?thesis by (subst analyze_heap.simps) (simp add: analyze_absent_eq)
  next
    case sch: (Some s)
    show ?thesis
    proof (cases "truthy_val (get s ''$ref'')")
      case xref: (Some x)
      show ?thesis
      proof (cases "\<exists>q. x = JStr q")
        case True
        then obtain q where q: "truthy_val (get s ''$ref'') = Some (JStr q)" using xref by blast
        show ?thesis
        proof (cases "q \<in> set vis")
          case True
          with sch q "1.prems" show ?thesis by (subst analyze_heap.simps) (simp add: analyze_ref_visited)
        next
          case False
          have "heap_ok v (q # vis) (set_add v q h)" by (rule heap_ok_add [OF ok])
          from "1.IH"(6) [OF sch q refl False, where v = v and h = "set_add v q h"] this
          obtain h' where "analyze_heap spec (resolve_ref spec q) v d (set_add v q h) =
              Some (analyze spec (resolve_ref spec q) (q # vis) d, h')" "frame v (set_add v q h) h'"
            by (auto simp: heap_ok_def)
          with sch q False "1.prems" show ?thesis
            by (subst analyze_heap.simps) (auto simp: analyze_ref_unvisited intro: frame_add)
        qed
      next
        case False
        with sch xref show ?thesis
          by (subst analyze_heap.simps) (cases x; simp add: analyze_ref_bad)
      qed
    next
      case noref: None
      show ?thesis
      proof (cases "truthy_val (get s ''allOf'')")
        case all: (Some a)
        show ?thesis
        proof (cases "js_iter a")
          case (Inr bs)
          from heap_branches [OF ok "1.IH"(5) [OF sch noref all Inr]] obtain h' where
            "loop_st (\<lambda>b h. analyze_heap spec (Some b) (hp_next h) d (copy_set v h)) bs h =
              Some (seq_sum (map (\<lambda>b. analyze spec (Some b) vis d) bs), h')" "frame v h h'" by blast
          with sch noref all Inr show ?thesis
            by (subst analyze_heap.simps) (simp add: analyze_allOf_eq)
        qed (use sch noref all in \<open>subst analyze_heap.simps, simp add: analyze_allOf_eq\<close>)
      next
        case noall: None
        show ?thesis
        proof (cases "js_or (get s ''oneOf'') (get s ''anyOf'')")
          case one: (Some a)
          show ?thesis
          proof (cases "js_iter a")
            case (Inr bs)
            from heap_branches [OF ok "1.IH"(4) [OF sch noref noall one Inr]] obtain h' where
              "loop_st (\<lambda>b h. analyze_heap spec (Some b) (hp_next h) d (copy_set v h)) bs h =
                Some (seq_sum (map (\<lambda>b. analyze spec (Some b) vis d) bs), h')" "frame v h h'" by blast
            with sch noref noall one Inr show ?thesis
              by (subst analyze_heap.simps) (simp add: analyze_oneOf_eq)
          qed (use sch noref noall one in \<open>subst analyze_heap.simps, simp add: analyze_oneOf_eq\<close>)
        next
          case noone: None
          note plain = sch noref noall noone
          show ?thesis
          proof (cases "get s ''type'' = Some (JStr ''array'') \<and> truthy_val (get s ''items'') \<noteq> None")
            case True
            with plain "1.IH"(1) [OF plain True "1.prems"] show ?thesis
              by (subst analyze_heap.simps) (simp add: analyze_array_eq del: truthy_val_Some not_None_eq)
          next
            case notarr: False
            show ?thesis
            proof (cases "get s ''type'' = Some (JStr ''object'') \<or> truthy_val (get s ''properties'') \<noteq> None")
              case isobj: True
              show ?thesis
                by (rule heap_object [OF plain notarr isobj ok], (rule "1.IH"(2) [OF plain notarr isobj]; assumption),
                    (rule "1.IH"(3) [OF plain notarr isobj]; assumption))
            next
              case False
              with plain notarr show ?thesis
                by (subst analyze_heap.simps) (simp add: analyze_prim_eq del: truthy_val_Some not_None_eq cong: conj_cong)
            qed
          qed
        qed
      qed
    qed
  qed
qed

theorem analyze_heap_refines_witness:
  "hp_sets heap0 0 = set [] \<and> 0 < hp_next heap0 \<and>
   (\<exists>h'. analyze_heap node_doc (Some (jref ''#/components/schemas/Node'')) 0 1 heap0 =
     Some (analyze node_doc (Some (jref ''#/components/schemas/Node'')) [] 1, h') \<and> frame 0 heap0 h')"
proof -
  have h: "hp_sets heap0 0 = set []" "0 < hp_next heap0" by (simp_all add: heap0_def)
  from h analyze_heap_refines [OF h] show ?thesis by blast
qed

end
