(* ===== verification/Spec2Isabelle.thy ===== *)
theory Spec2Isabelle
  imports View Visited
begin

text \<open>
  \<^bold>\<open>A verification model of the OpenAPI structure analyser\<close>
  (\<^verbatim>\<open>src/src/lib/openapi-parser.ts\<close> and the page that calls it).

  \<^bold>\<open>The program.\<close>  \<^verbatim>\<open>parseOpenAPI(content)\<close> decodes a document
  (\<^verbatim>\<open>JSON.parse\<close>, then \<^verbatim>\<open>yaml.load\<close>), checks the \<^verbatim>\<open>openapi\<close> or
  \<^verbatim>\<open>swagger\<close> marker, walks \<^verbatim>\<open>paths\<close> and the seven HTTP methods, finds the
  request schema (\<^verbatim>\<open>getRequestSchema\<close>) and the first 2xx response schema
  (\<^verbatim>\<open>getResponseSchema\<close>) of every operation and hands both to
  \<^verbatim>\<open>analyzeSchema\<close>, which computes a field count and a nesting depth,
  following same-document \<^verbatim>\<open>$ref\<close> pointers through \<^verbatim>\<open>resolveRef\<close> and
  stopping at pointers already visited on the current path.  The page
  (\<^verbatim>\<open>src/src/pages/Index.tsx\<close>) takes a file from the uploader
  (\<^verbatim>\<open>src/src/components/FileUploader.tsx\<close>), parses it after a 300 ms timer
  and renders the report: four stats cards, and a table
  (\<^verbatim>\<open>AnalysisTable.tsx\<close>) with a method badge (\<^verbatim>\<open>MethodBadge.tsx\<close>) per row.

  \<^bold>\<open>Theories, in import order.\<close>
  \<^item> \<open>Prelude\<close>: sequencing of fallible loops (\<open>seq_sum\<close>: the first exception
    of a loop body ends the loop), running maxima (\<open>fold max\<close> for
    \<^verbatim>\<open>Math.max\<close>) and their commutation with monotone maps, the lexicographic
    termination measure lemmas.
  \<^item> \<open>Json\<close>: the decoded document as a JavaScript value (\<open>json\<close>) and the part
    of JavaScript the parser relies on: truthiness, property reads on objects,
    arrays and strings (\<open>get\<close>, with canonical array indices and
    \<^verbatim>\<open>length\<close>), \<^verbatim>\<open>Object.keys/values/entries\<close>, \<^verbatim>\<open>for ... of\<close>,
    decimal index spelling (\<open>show_nat\<close>/\<open>parse_index\<close>, a round trip) and the
    exceptions (\<open>error\<close>).
  \<^item> \<open>Resolver\<close>: \<^verbatim>\<open>resolveRef\<close> as \<open>resolve_ref\<close> with JavaScript's
    first-occurrence \<^verbatim>\<open>replace\<close>, \<^verbatim>\<open>split\<close> and optional chaining (\<open>walk\<close>);
    the pointer round trip and the handling of external references.
  \<^item> \<open>Schema\<close>: \<^verbatim>\<open>SchemaAnalysis\<close> as the record \<open>analysis\<close>, the combination
    step of every loop of \<^verbatim>\<open>analyzeSchema\<close>, the structural guard of line 98,
    the depth translation \<open>shift_depth\<close> and the well-typed documents
    (\<open>well_typed\<close>) on which nothing can throw.
  \<^item> \<open>Analyzer\<close>: \<^verbatim>\<open>analyzeSchema\<close> as the total recursive function
    \<open>analyze\<close>, its rule-by-rule unfolding lemmas, inversion of a successful run,
    a generic invariant principle (\<open>analyze_inv\<close>), and its properties: cycles,
    composition, arrays, objects, dangling references, depth bounds,
    translation in depth, absence and presence of exceptions, and where the
    structural guard of the property loop is (and is not) equivalent to
    trusting the nested count.
  \<^item> \<open>Visited\<close>: the same code run on an explicit store of mutable
    \<^verbatim>\<open>Set\<close> objects (\<open>analyze_heap\<close>, after the store of \<open>IMP/OO\<close>):
    \<^verbatim>\<open>visited.add\<close> updates the caller's set in place, the array call
    shares it, and \<^verbatim>\<open>new Set(visited)\<close> allocates a copy for every branch,
    property and \<^verbatim>\<open>additionalProperties\<close>; the refinement theorem that
    on every well-formed store it returns, computes exactly \<open>analyze\<close>, and
    changes no allocated set but its own.
  \<^item> \<open>Extractor\<close>: \<^verbatim>\<open>getRequestSchema\<close>, \<^verbatim>\<open>getResponseSchema\<close> and the
    path/method loop (\<open>extract_endpoints\<close>), with the media-type choice, the
    legacy body parameter, the 2xx filter and the endpoint order; on well-typed
    documents whose parameter lists hold no \<^verbatim>\<open>null\<close> the lookups give
    well-typed schemas and the loop one endpoint per declared operation
    (\<open>extract_endpoints_ok\<close>).
  \<^item> \<open>Report\<close>: the whole of \<^verbatim>\<open>parseOpenAPI\<close> (\<open>parse_openapi\<close>) with the
    decoders as parameters; its three error outcomes, defaults, spec scenario 3
    for every operation of that shape,
    and the end-to-end theorem that a well-formed document is analysed without
    an exception, with one endpoint per operation (\<open>parse_openapi_ok\<close>).
  \<^item> \<open>Page\<close>: \<^verbatim>\<open>Index\<close> and \<^verbatim>\<open>FileUploader\<close> as a state record and an
    inductive step relation \<open>page_step\<close> (drag, drop, file input, a read
    completing or failing in any order, a timer firing with its toast, reset),
    reachability from \<open>init_page\<close>, liveness of the loading state, the
    invariants that the newest toast describes the report shown and that every
    file name held passed the
    extension check, and two runs of stale timers: a report under another
    file's name, and a report under no name after \<^verbatim>\<open>New File\<close>.
  \<^item> \<open>Table\<close>: \<^verbatim>\<open>AnalysisTable\<close> and \<^verbatim>\<open>MethodBadge\<close>: the table
    header, one row per endpoint with its React key (distinct for every report),
    badge classes and colours.
  \<^item> \<open>View\<close>: what the page renders (\<open>page_view\<close>, and the whole screen
    \<open>page_screen\<close> with header, upload introduction, feature hints and
    footer): the uploader (\<open>uploader_render\<close>), stats cards with their text and
    icons, the \<^verbatim>\<open>New File\<close> button, the blank page when React cannot
    render a value of the report; and the rejection of a document
    without marker seen end to end, from the parser through the timer callback
    to the rendered page.

  \<^bold>\<open>Termination.\<close>  \<open>analyze\<close> is a total function: its termination
  proof uses the lexicographic measure (number of
  \<^verbatim>\<open>$ref\<close> strings of the document and of the current schema that are not
  yet visited, size of the current schema).  A reference call adds an unvisited
  pointer that occurs in the schema, and every node the resolver returns has
  its pointers among the document's; every other call descends into a strict
  part of the schema with the same visited set.  So the analysis of every
  document terminates, cycles included; no fuel is needed.  \<open>analyze_heap\<close>
  is a \<open>partial_function (option)\<close>, defined without any termination
  argument; that it returns on every document is part of its refinement
  theorem, proved by computation induction along \<open>analyze\<close>.  The page is a
  relation, and \<open>page_loading_ends\<close> shows that loading always can end.

  \<^bold>\<open>Modelling choices.\<close>  Numbers are rationals (only their truthiness
  matters); counts and depths are \<open>nat\<close> (JavaScript doubles hold them exactly
  up to \<open>2^53\<close>).  Strings are byte strings, not UTF-16.  Objects are
  association lists in JavaScript's enumeration order; only own properties are
  modelled, so pointers through \<^verbatim>\<open>Object.prototype\<close> keys such as
  \<^verbatim>\<open>constructor\<close> resolve to nothing here.  Runtime exceptions are the
  \<open>Inl\<close> values of \<open>error + _\<close>.  In \<open>analyze\<close> the visited set is a list
  passed by value; \<open>Visited\<close> proves this equal to the source's mutation
  of shared and copied sets.  The
  asynchronous file reads and \<^verbatim>\<open>setTimeout\<close> callbacks are queues in the page
  state; React's remount of the uploader when the report is cleared is
  \<open>remount\<close>.

  \<^bold>\<open>Findings\<close> (theorems that show them): the page can show one file's
  report under another file's name (\<open>page_name_mismatch\<close>), and after a
  reset a report under no name (\<open>page_reset_stale_report\<close>); the guard of
  the property loop is not the simplification spec section 9 calls equivalent
  (\<open>prop_guard_trusts_result\<close> where it holds,
  \<open>analyze_composition_property\<close> where it does not); a report whose title,
  version or a summary is an object parses but blanks the page
  (\<open>page_view\<close> gives \<open>RenderError\<close>); the analyser and
  the extractor throw on malformed fragments the spec says are tolerated
  (\<open>analyze_type_errors\<close>, \<open>get_request_schema_parameters_object\<close>); the
  media-type and response lookups do not fall back when the chosen entry has no
  schema (\<open>get_request_schema_json\<close>, \<open>get_response_schema_first\<close>); a
  \<^verbatim>\<open>null\<close> document gives a \<^verbatim>\<open>TypeError\<close> (\<open>parse_openapi_null\<close>); an
  \<^verbatim>\<open>allOf\<close> of bare types has depth without fields, against the invariant
  of spec section 3 (\<open>analyze_allOf_no_fields\<close>); external references are
  looked up as mangled local keys (\<open>resolve_ref_external\<close>); \<^verbatim>\<open>OPTIONS\<close>
  and \<^verbatim>\<open>HEAD\<close> have no badge colour (\<open>method_color_fallback\<close>).

  \<^bold>\<open>Not modelled.\<close>  The decoders \<^verbatim>\<open>JSON.parse\<close> and \<^verbatim>\<open>yaml.load\<close>
  (library code, parameters of \<open>parse_openapi\<close>); the toast store of
  \<^verbatim>\<open>use-toast\<close> beyond the list of toasts raised; \<^verbatim>\<open>cn\<close>'s merging of
  class names, the styling classes and animation delays (presentation only);
  the React runtime itself (rendering is a function of the state, effects of a
  handler are applied together, a render error blanks the page); the
  identity of JavaScript objects (only reachable through YAML aliases, and only
  observable for a non-string \<^verbatim>\<open>$ref\<close>, which throws at once).
\<close>

end
